theory Spec2Isabelle
  imports Complex_Main "HOL-Library.AList" "HOL-Library.Log_Nat"
begin

section \<open>Agent-based economy simulation: the engine of simulation.py\<close>

text \<open>
  The engine of \<^verbatim>\<open>simulation.py\<close> is embedded function by function. Money is a
  Python float in the source. The engine is embedded with every float operation read as
  the exact operation on rationals, so every monetary quantity is a \<open>rat\<close>: this is the
  reading of the properties that are stated in exact rational arithmetic, and of those
  that do not depend on the arithmetic. The purchase function is embedded a second time
  in IEEE 754 double precision (\<open>place_order_and_pay_float\<close> below), which is what the
  code computes. Python's unbounded integers are \<open>int\<close>. A Python dict keeps insertion
  order and has one entry per key: it is an association list, read with \<open>map_of\<close> and
  written with \<open>AList.update\<close> (which replaces the entry of an existing key in place and
  appends a new key at the end, as a dict does). The module-level random source is a
  parameter \<open>rnd\<close>: \<open>rnd k\<close> is the raw number behind the \<open>k\<close>-th call of
  \<^verbatim>\<open>random.choice\<close> made by the operation at hand.
\<close>

subsection \<open>Errors\<close>

datatype error = ZeroDivisionError | KeyError | IndexError | OverflowError | ValueError

subsection \<open>Data model\<close>

record household =
  hh_id :: int
  hh_balance :: rat
  hh_size :: int
  employer_id :: "int option"

record firm =
  f_id :: int
  f_balance :: rat
  price :: rat
  wage_rate :: rat
  worker_ids :: "int list"
  revenue_this_tick :: rat

record transaction =
  from_id :: int
  to_id :: int
  amount :: rat

record config =
  cfg_N_F :: int
  cfg_N_H :: int
  cfg_p :: rat
  cfg_wage_rate :: rat
  cfg_M0 :: rat
  cfg_household_size :: int

record simulation =
  sim_config :: config
  households :: "(int \<times> household) list"
  firms :: "(int \<times> firm) list"

subsection \<open>Python primitives\<close>

text \<open>\<^verbatim>\<open>int(x)\<close> on a float truncates towards zero.\<close>

definition py_int :: "rat \<Rightarrow> int" where
  "py_int x = (if 0 \<le> x then \<lfloor>x\<rfloor> else \<lceil>x\<rceil>)"

text \<open>\<^verbatim>\<open>range(n)\<close>: the integers \<open>0, ..., n - 1\<close>, empty when \<open>n \<le> 0\<close>.\<close>

definition range_py :: "int \<Rightarrow> int list" where
  "range_py n = map int [0..<nat n]"

text \<open>
  \<^verbatim>\<open>random.choice(seq)\<close> raises IndexError on an empty sequence and otherwise returns
  the element at a position below \<open>len(seq)\<close>; \<open>choice_index r n\<close> is that position for
  the raw random number \<open>r\<close>.
\<close>

definition choice_index :: "nat \<Rightarrow> nat \<Rightarrow> error + nat" where
  "choice_index r n = (if n = 0 then Inl IndexError else Inr (r mod n))"

subsection \<open>Household\<close>

definition Household_init :: "int \<Rightarrow> rat \<Rightarrow> int \<Rightarrow> household" where
  "Household_init i b s = \<lparr>hh_id = i, hh_balance = b, hh_size = s, employer_id = None\<rparr>"

definition determine_food_demand :: "household \<Rightarrow> int \<Rightarrow> int" where
  "determine_food_demand h food_per_person = hh_size h * food_per_person"

text \<open>
  \<open>place_order_and_pay h pr\<close> returns the household after the debit together with the
  purchased quantity. The division of the second branch raises on a zero price. The
  arithmetic is exact: products, quotient and difference are those of the rationals.
\<close>

definition place_order_and_pay :: "household \<Rightarrow> rat \<Rightarrow> error + (household \<times> int)" where
  "place_order_and_pay h pr =
    (let food_demand = determine_food_demand h 1;
         cost = of_int food_demand * pr
     in if hh_balance h \<ge> cost then
          Inr (h\<lparr>hh_balance := hh_balance h - cost\<rparr>, food_demand)
        else if pr = 0 then Inl ZeroDivisionError
        else
          (let purchased_quantity = py_int (hh_balance h / pr)
           in Inr (h\<lparr>hh_balance := hh_balance h - of_int purchased_quantity * pr\<rparr>,
                   purchased_quantity)))"

subsection \<open>Household purchases in double precision\<close>














subsection \<open>Firm\<close>

definition Firm_init :: "int \<Rightarrow> rat \<Rightarrow> rat \<Rightarrow> firm" where
  "Firm_init i pr w =
    \<lparr>f_id = i, f_balance = 0, price = pr, wage_rate = w, worker_ids = [],
     revenue_this_tick = 0\<rparr>"

definition add_worker :: "firm \<Rightarrow> int \<Rightarrow> firm" where
  "add_worker f household_id = f\<lparr>worker_ids := worker_ids f @ [household_id]\<rparr>"

definition receive_payment :: "firm \<Rightarrow> rat \<Rightarrow> firm" where
  "receive_payment f amt = f\<lparr>revenue_this_tick := revenue_this_tick f + amt\<rparr>"

text \<open>
  The wage loop of \<^verbatim>\<open>pay_workers\<close>: one credit per roster entry, in roster order;
  \<^verbatim>\<open>households_dict[worker_id]\<close> raises KeyError for an id that is not a key.
\<close>

fun distribute_wages ::
  "int list \<Rightarrow> rat \<Rightarrow> (int \<times> household) list \<Rightarrow> error + (int \<times> household) list" where
  "distribute_wages [] w hhs = Inr hhs"
| "distribute_wages (worker_id # ws) w hhs =
    (case map_of hhs worker_id of
       None \<Rightarrow> Inl KeyError
     | Some h \<Rightarrow>
         distribute_wages ws w
           (AList.update worker_id (h\<lparr>hh_balance := hh_balance h + w\<rparr>) hhs))"

definition pay_workers ::
  "firm \<Rightarrow> (int \<times> household) list \<Rightarrow> error + (firm \<times> (int \<times> household) list)" where
  "pay_workers f hhs =
    (let f1 = f\<lparr>f_balance := f_balance f + revenue_this_tick f, revenue_this_tick := 0\<rparr>
     in if worker_ids f1 = [] then Inr (f1, hhs)
        else
          (let total_payout = f_balance f1 * wage_rate f1;
               wage_per_worker = total_payout / of_nat (length (worker_ids f1))
           in case distribute_wages (worker_ids f1) wage_per_worker hhs of
                Inl e \<Rightarrow> Inl e
              | Inr hhs' \<Rightarrow> Inr (f1\<lparr>f_balance := f_balance f1 - total_payout\<rparr>, hhs')))"

subsection \<open>Simulation: setup\<close>

definition create_firms :: "config \<Rightarrow> (int \<times> firm) list" where
  "create_firms cfg =
    fold (\<lambda>i fs. AList.update i (Firm_init i (cfg_p cfg) (cfg_wage_rate cfg)) fs)
      (range_py (cfg_N_F cfg)) []"

text \<open>
  The household loop of \<^verbatim>\<open>_setup_world\<close> over the remaining ids; \<open>k\<close> counts the calls
  of \<^verbatim>\<open>random.choice\<close> made so far. The household stored under \<open>i\<close> is the one whose
  employer is then set, so both writes are one update of key \<open>i\<close>.
\<close>

fun create_households ::
  "(nat \<Rightarrow> nat) \<Rightarrow> nat \<Rightarrow> config \<Rightarrow> rat \<Rightarrow> int list \<Rightarrow> int list \<Rightarrow>
   (int \<times> household) list \<Rightarrow> (int \<times> firm) list \<Rightarrow>
   error + ((int \<times> household) list \<times> (int \<times> firm) list)" where
  "create_households rnd k cfg initial_balance firm_ids [] hhs fs = Inr (hhs, fs)"
| "create_households rnd k cfg initial_balance firm_ids (i # is) hhs fs =
    (case choice_index (rnd k) (length firm_ids) of
       Inl e \<Rightarrow> Inl e
     | Inr j \<Rightarrow>
        (let employer_firm_id = firm_ids ! j;
             hh = (Household_init i initial_balance (cfg_household_size cfg))
                    \<lparr>employer_id := Some employer_firm_id\<rparr>;
             hhs' = AList.update i hh hhs
         in case map_of fs employer_firm_id of
              None \<Rightarrow> Inl KeyError
            | Some f \<Rightarrow>
                create_households rnd (Suc k) cfg initial_balance firm_ids is hhs'
                  (AList.update employer_firm_id (add_worker f i) fs)))"

definition setup_world :: "(nat \<Rightarrow> nat) \<Rightarrow> config \<Rightarrow> error + simulation" where
  "setup_world rnd cfg =
    (let fs = create_firms cfg;
         firm_ids = map fst fs
     in if cfg_N_H cfg = 0 then Inl ZeroDivisionError
        else
          (let initial_balance = cfg_M0 cfg / of_int (cfg_N_H cfg)
           in case create_households rnd 0 cfg initial_balance firm_ids
                     (range_py (cfg_N_H cfg)) [] fs of
                Inl e \<Rightarrow> Inl e
              | Inr (hhs, fs') \<Rightarrow>
                  Inr \<lparr>sim_config = cfg, households = hhs, firms = fs'\<rparr>))"

subsection \<open>Simulation: one tick\<close>

text \<open>
  The shopping loop over the remaining households, in dict order. \<open>fs\<close> is the firm
  list (the objects behind \<^verbatim>\<open>firm_list\<close>, which are the values of \<^verbatim>\<open>self.firms\<close>),
  \<open>ts\<close> the transactions appended so far, \<open>k\<close> the number of draws made. The result holds
  the households after their purchases, the firms and the transactions.
\<close>

fun shopping_loop ::
  "(nat \<Rightarrow> nat) \<Rightarrow> nat \<Rightarrow> (int \<times> household) list \<Rightarrow> (int \<times> firm) list \<Rightarrow>
   transaction list \<Rightarrow>
   error + ((int \<times> household) list \<times> (int \<times> firm) list \<times> transaction list)" where
  "shopping_loop rnd k [] fs ts = Inr ([], fs, ts)"
| "shopping_loop rnd k ((key, hh) # rest) fs ts =
    (case choice_index (rnd k) (length fs) of
       Inl e \<Rightarrow> Inl e
     | Inr j \<Rightarrow>
        (let chosen_firm = snd (fs ! j)
         in case place_order_and_pay hh (price chosen_firm) of
              Inl e \<Rightarrow> Inl e
            | Inr (hh', purchased_qty) \<Rightarrow>
               (let (fs', ts') =
                  (if purchased_qty > 0 then
                     (let amt = of_int purchased_qty * price chosen_firm
                      in (fs[j := (fst (fs ! j), receive_payment chosen_firm amt)],
                          ts @ [\<lparr>from_id = hh_id hh', to_id = f_id chosen_firm,
                                  amount = amt\<rparr>]))
                   else (fs, ts))
                in case shopping_loop rnd (Suc k) rest fs' ts' of
                     Inl e \<Rightarrow> Inl e
                   | Inr (hs, fs'', ts'') \<Rightarrow> Inr ((key, hh') # hs, fs'', ts''))))"

fun payday_loop ::
  "(int \<times> firm) list \<Rightarrow> (int \<times> household) list \<Rightarrow>
   error + ((int \<times> firm) list \<times> (int \<times> household) list)" where
  "payday_loop [] hhs = Inr ([], hhs)"
| "payday_loop ((key, f) # rest) hhs =
    (case pay_workers f hhs of
       Inl e \<Rightarrow> Inl e
     | Inr (f', hhs') \<Rightarrow>
        (case payday_loop rest hhs' of
           Inl e \<Rightarrow> Inl e
         | Inr (fs', hhs'') \<Rightarrow> Inr ((key, f') # fs', hhs'')))"

definition run_one_tick ::
  "(nat \<Rightarrow> nat) \<Rightarrow> simulation \<Rightarrow> error + (simulation \<times> transaction list)" where
  "run_one_tick rnd s =
    (case shopping_loop rnd 0 (households s) (firms s) [] of
       Inl e \<Rightarrow> Inl e
     | Inr (hhs1, fs1, ts) \<Rightarrow>
        (case payday_loop fs1 hhs1 of
           Inl e \<Rightarrow> Inl e
         | Inr (fs2, hhs2) \<Rightarrow> Inr (s\<lparr>households := hhs2, firms := fs2\<rparr>, ts)))"

subsection \<open>Reachable states and measures\<close>

text \<open>
  A state is reachable for a configuration when \<^verbatim>\<open>Simulation(config)\<close> returns it, or
  when \<^verbatim>\<open>run_one_tick\<close> returns normally from a reachable state, for any random draws.
\<close>

inductive reachable :: "config \<Rightarrow> simulation \<Rightarrow> bool" for cfg :: config where
  init: "setup_world rnd cfg = Inr s \<Longrightarrow> reachable cfg s"
| tick: "reachable cfg s \<Longrightarrow> run_one_tick rnd s = Inr (s', ts) \<Longrightarrow> reachable cfg s'"

definition sum_household_balances :: "(int \<times> household) list \<Rightarrow> rat" where
  "sum_household_balances hhs = sum_list (map (\<lambda>kh. hh_balance (snd kh)) hhs)"

definition sum_firm_balances :: "(int \<times> firm) list \<Rightarrow> rat" where
  "sum_firm_balances fs =
    sum_list (map (\<lambda>kf. f_balance (snd kf) + revenue_this_tick (snd kf)) fs)"

definition total_money :: "simulation \<Rightarrow> rat" where
  "total_money s = sum_household_balances (households s) + sum_firm_balances (firms s)"

subsection \<open>The shopping phase as the specification words it\<close>

text \<open>
  The record a household contributes to a tick, following the specification: the household
  selects the firm at position \<open>j\<close>, executes its purchase at that firm's price and, when the
  purchased quantity is positive, the record \<open>{from, to, amount = quantity * price}\<close> is
  emitted and the amount is a sale of firm \<open>j\<close>; a quantity of 0 emits nothing.
  \<open>shopping_records\<close> collects them in household order, each tagged with the position of
  the firm that was paid, and \<open>sales_to j\<close> adds up the amounts paid to firm \<open>j\<close>.
\<close>

definition shopping_record :: "(int \<times> firm) list \<Rightarrow> nat \<Rightarrow> household \<Rightarrow> (nat \<times> transaction) list" where
  "shopping_record fs r hh =
    (let j = r mod length fs; chosen_firm = snd (fs ! j)
     in case place_order_and_pay hh (price chosen_firm) of
          Inl e \<Rightarrow> []
        | Inr (hh', quantity) \<Rightarrow>
            if quantity > 0 then
              [(j, \<lparr>from_id = hh_id hh, to_id = f_id chosen_firm,
                    amount = of_int quantity * price chosen_firm\<rparr>)]
            else [])"

fun shopping_records ::
  "(nat \<Rightarrow> nat) \<Rightarrow> nat \<Rightarrow> (int \<times> household) list \<Rightarrow> (int \<times> firm) list \<Rightarrow>
   (nat \<times> transaction) list" where
  "shopping_records rnd k [] fs = []"
| "shopping_records rnd k ((key, hh) # rest) fs =
     shopping_record fs (rnd k) hh @ shopping_records rnd (Suc k) rest fs"

definition sales_to :: "nat \<Rightarrow> (nat \<times> transaction) list \<Rightarrow> rat" where
  "sales_to j recs = sum_list (map (\<lambda>jt. amount (snd jt)) (filter (\<lambda>jt. fst jt = j) recs))"

subsection \<open>Auxiliary notions for the loops\<close>

text \<open>
  \<open>firm_static\<close> is the firm list without the revenue accumulators, which is all the shopping
  loop changes; \<open>sale_firms\<close> and \<open>sale_record\<close> are the firm list and the record appended
  by one iteration of the shopping loop.
\<close>

definition firm_static :: "(int \<times> firm) list \<Rightarrow> (int \<times> firm) list" where
  "firm_static fs = map (\<lambda>kf. (fst kf, (snd kf)\<lparr>revenue_this_tick := 0\<rparr>)) fs"

definition sale_firms :: "(int \<times> firm) list \<Rightarrow> nat \<Rightarrow> int \<Rightarrow> (int \<times> firm) list" where
  "sale_firms fs j q =
    (if q > 0 then
       fs[j := (fst (fs ! j), receive_payment (snd (fs ! j)) (of_int q * price (snd (fs ! j))))]
     else fs)"

definition sale_record :: "(int \<times> firm) list \<Rightarrow> nat \<Rightarrow> household \<Rightarrow> int \<Rightarrow> transaction list" where
  "sale_record fs j hh' q =
    (if q > 0 then
       [\<lparr>from_id = hh_id hh', to_id = f_id (snd (fs ! j)),
         amount = of_int q * price (snd (fs ! j))\<rparr>]
     else [])"

text \<open>
  \<open>new_household\<close> is the household the setup loop stores under key \<open>i\<close>. \<open>setup_inv\<close> is
  the invariant of that loop: household keys are distinct, the firm keys are
  \<open>range(N_F)\<close>, every household carries its key, the initial balance, the configured size
  and an employer among the firm keys, every firm carries its key and the configured
  price and wage rate with no money, and a firm's roster holds exactly the households
  whose employer it is.
\<close>

definition new_household :: "config \<Rightarrow> rat \<Rightarrow> int \<Rightarrow> int \<Rightarrow> household" where
  "new_household cfg ib i e =
     (Household_init i ib (cfg_household_size cfg))\<lparr>employer_id := Some e\<rparr>"

definition setup_inv ::
  "config \<Rightarrow> rat \<Rightarrow> (int \<times> household) list \<Rightarrow> (int \<times> firm) list \<Rightarrow> bool" where
  "setup_inv cfg ib hhs fs \<longleftrightarrow>
     distinct (map fst hhs) \<and> map fst fs = range_py (cfg_N_F cfg) \<and>
     (\<forall>i h. map_of hhs i = Some h \<longrightarrow>
        hh_id h = i \<and> hh_balance h = ib \<and> hh_size h = cfg_household_size cfg \<and>
        (\<exists>e. employer_id h = Some e \<and> e \<in> set (range_py (cfg_N_F cfg)))) \<and>
     (\<forall>fk f. map_of fs fk = Some f \<longrightarrow>
        f_id f = fk \<and> price f = cfg_p cfg \<and> wage_rate f = cfg_wage_rate cfg \<and>
        f_balance f = 0 \<and> revenue_this_tick f = 0 \<and>
        (\<forall>i. i \<in> set (worker_ids f) \<longleftrightarrow>
           (\<exists>h. map_of hhs i = Some h \<and> employer_id h = Some fk)))"

subsection \<open>Invariants of the tick\<close>

text \<open>
  \<open>firms_ok\<close>: every firm has a positive price, a wage rate in \<open>[0, 1]\<close>, and a non-negative
  balance and revenue accumulator. \<open>hh_nonneg\<close>: no household balance is negative; \<open>hh_ok\<close>
  adds that no household size is negative. \<open>rosters_ok\<close>: every roster entry is a key of
  the household dict.
\<close>

definition firms_ok :: "(int \<times> firm) list \<Rightarrow> bool" where
  "firms_ok fs \<longleftrightarrow>
     (\<forall>kf \<in> set fs. 0 < price (snd kf) \<and> 0 \<le> wage_rate (snd kf) \<and> wage_rate (snd kf) \<le> 1 \<and>
        0 \<le> f_balance (snd kf) \<and> 0 \<le> revenue_this_tick (snd kf))"

definition hh_ok :: "(int \<times> household) list \<Rightarrow> bool" where
  "hh_ok hhs \<longleftrightarrow> (\<forall>kh \<in> set hhs. 0 \<le> hh_balance (snd kh) \<and> 0 \<le> hh_size (snd kh))"

definition hh_nonneg :: "(int \<times> household) list \<Rightarrow> bool" where
  "hh_nonneg hhs \<longleftrightarrow> (\<forall>kh \<in> set hhs. 0 \<le> hh_balance (snd kh))"

definition rosters_ok :: "(int \<times> firm) list \<Rightarrow> (int \<times> household) list \<Rightarrow> bool" where
  "rosters_ok fs hhs \<longleftrightarrow> (\<forall>kf \<in> set fs. set (worker_ids (snd kf)) \<subseteq> fst ` set hhs)"

subsection \<open>Example data\<close>

text \<open>
  The scenario of the specification: a firm with price 10 and wage rate 1/2 that has sold
  one unit this tick, and its single worker, who started the tick with 50 and bought
  that unit.
\<close>

definition firm_A :: firm where
  "firm_A = \<lparr>f_id = 0, f_balance = 0, price = 10, wage_rate = 1 / 2, worker_ids = [0],
             revenue_this_tick = 10\<rparr>"

definition hh_A :: household where
  "hh_A = \<lparr>hh_id = 0, hh_balance = 40, hh_size = 1, employer_id = Some 0\<rparr>"

text \<open>
  The scenario of the specification as a whole state: the configuration with two firms
  (price 10, wage rate 1/2), two households of size 1 and a money supply of 100; the state
  after setup when household \<open>i\<close> is assigned to firm \<open>i\<close>; and the state and the
  transactions after one tick in which both households buy from firm 0.
\<close>

definition cfg_A :: config where
  "cfg_A = \<lparr>cfg_N_F = 2, cfg_N_H = 2, cfg_p = 10, cfg_wage_rate = 1 / 2, cfg_M0 = 100,
            cfg_household_size = 1\<rparr>"

definition sim_A :: simulation where
  "sim_A = \<lparr>sim_config = cfg_A,
     households =
       [(0, \<lparr>hh_id = 0, hh_balance = 50, hh_size = 1, employer_id = Some 0\<rparr>),
        (1, \<lparr>hh_id = 1, hh_balance = 50, hh_size = 1, employer_id = Some 1\<rparr>)],
     firms =
       [(0, \<lparr>f_id = 0, f_balance = 0, price = 10, wage_rate = 1 / 2, worker_ids = [0],
             revenue_this_tick = 0\<rparr>),
        (1, \<lparr>f_id = 1, f_balance = 0, price = 10, wage_rate = 1 / 2, worker_ids = [1],
             revenue_this_tick = 0\<rparr>)]\<rparr>"

definition sim_A1 :: simulation where
  "sim_A1 = \<lparr>sim_config = cfg_A,
     households =
       [(0, \<lparr>hh_id = 0, hh_balance = 50, hh_size = 1, employer_id = Some 0\<rparr>),
        (1, \<lparr>hh_id = 1, hh_balance = 40, hh_size = 1, employer_id = Some 1\<rparr>)],
     firms =
       [(0, \<lparr>f_id = 0, f_balance = 10, price = 10, wage_rate = 1 / 2, worker_ids = [0],
             revenue_this_tick = 0\<rparr>),
        (1, \<lparr>f_id = 1, f_balance = 0, price = 10, wage_rate = 1 / 2, worker_ids = [1],
             revenue_this_tick = 0\<rparr>)]\<rparr>"

definition ts_A :: "transaction list" where
  "ts_A = [\<lparr>from_id = 0, to_id = 0, amount = 10\<rparr>, \<lparr>from_id = 1, to_id = 0, amount = 10\<rparr>]"


text \<open>
  Two configurations outside the documented ranges, with one firm and one household: a
  negative household size, and a negative money supply. \<open>sim_B b\<close> and \<open>sim_C b\<close> are their
  states with household balance \<open>b\<close>.
\<close>

definition cfg_B :: config where
  "cfg_B = \<lparr>cfg_N_F = 1, cfg_N_H = 1, cfg_p = 10, cfg_wage_rate = 1 / 2, cfg_M0 = 100,
            cfg_household_size = - 1\<rparr>"

definition sim_B :: "rat \<Rightarrow> simulation" where
  "sim_B b = \<lparr>sim_config = cfg_B,
     households = [(0, \<lparr>hh_id = 0, hh_balance = b, hh_size = - 1, employer_id = Some 0\<rparr>)],
     firms = [(0, \<lparr>f_id = 0, f_balance = 0, price = 10, wage_rate = 1 / 2, worker_ids = [0],
                   revenue_this_tick = 0\<rparr>)]\<rparr>"

definition cfg_C :: config where
  "cfg_C = \<lparr>cfg_N_F = 1, cfg_N_H = 1, cfg_p = 10, cfg_wage_rate = 1 / 2, cfg_M0 = - 25,
            cfg_household_size = 1\<rparr>"

definition sim_C :: "rat \<Rightarrow> simulation" where
  "sim_C b = \<lparr>sim_config = cfg_C,
     households = [(0, \<lparr>hh_id = 0, hh_balance = b, hh_size = 1, employer_id = Some 0\<rparr>)],
     firms = [(0, \<lparr>f_id = 0, f_balance = 0, price = 10, wage_rate = 1 / 2, worker_ids = [0],
                   revenue_this_tick = 0\<rparr>)]\<rparr>"

section \<open>Household purchases\<close>

lemma py_int_nonneg: "0 \<le> x \<Longrightarrow> py_int x = \<lfloor>x\<rfloor>"
  by (simp add: py_int_def)

lemma floor_div_mult_le:
  fixes b pr :: rat
  assumes "0 < pr"
  shows "of_int \<lfloor>b / pr\<rfloor> * pr \<le> b"
proof -
  have "of_int \<lfloor>b / pr\<rfloor> \<le> b / pr" by (rule of_int_floor_le)
  then show ?thesis using assms by (simp only: pos_le_divide_eq)
qed


subsection \<open>Rounding to double precision\<close>




















subsection \<open>The purchase, as computed and in exact arithmetic\<close>







section \<open>Payday\<close>

lemma update_keys_present:
  "k \<in> fst ` set al \<Longrightarrow> map fst (AList.update k v al) = map fst al"
  by (simp add: update_keys)

text \<open>
  The wage loop succeeds when every roster entry is a key of the household dict; it keeps
  the keys and their order, and credits each household once per occurrence of its key in
  the roster.
\<close>

lemma distribute_wages_ok:
  "set ws \<subseteq> fst ` set hhs \<Longrightarrow>
   \<exists>hhs'. distribute_wages ws w hhs = Inr hhs' \<and> map fst hhs' = map fst hhs \<and>
     (\<forall>key. map_of hhs' key =
        map_option (\<lambda>h. h\<lparr>hh_balance := hh_balance h + of_nat (count_list ws key) * w\<rparr>)
          (map_of hhs key))"
proof (induction ws arbitrary: hhs)
  case Nil
  then show ?case by (simp add: option.map_ident)
next
  case (Cons worker_id ws)
  from Cons.prems have mem: "worker_id \<in> fst ` set hhs" by simp
  then obtain h where h: "map_of hhs worker_id = Some h"
    by (cases "map_of hhs worker_id") (auto simp: map_of_eq_None_iff)
  define hhs1 where "hhs1 = AList.update worker_id (h\<lparr>hh_balance := hh_balance h + w\<rparr>) hhs"
  have keys1: "map fst hhs1 = map fst hhs"
    using mem by (simp add: hhs1_def update_keys_present)
  then have "fst ` set hhs1 = fst ` set hhs"
    by (metis list.set_map)
  with Cons.prems have "set ws \<subseteq> fst ` set hhs1" by simp
  from Cons.IH [OF this] obtain hhs' where
    r: "distribute_wages ws w hhs1 = Inr hhs'" and
    k: "map fst hhs' = map fst hhs1" and
    m: "\<And>key. map_of hhs' key =
        map_option (\<lambda>h. h\<lparr>hh_balance := hh_balance h + of_nat (count_list ws key) * w\<rparr>)
          (map_of hhs1 key)"
    by blast
  have "map_of hhs' key =
        map_option
          (\<lambda>h. h\<lparr>hh_balance := hh_balance h + of_nat (count_list (worker_id # ws) key) * w\<rparr>)
          (map_of hhs key)" for key
    using h by (simp add: m hhs1_def update_conv' algebra_simps)
  with r k keys1 h show ?case
    by (simp add: hhs1_def)
qed

text \<open>
  Claim C3. For a firm with revenue accumulator \<open>r\<close>, balance \<open>b\<close> and a roster of \<open>k\<close>
  workers, all of them keys of the household dict, \<open>pay_workers\<close> folds \<open>r\<close> into the
  balance and resets the accumulator to zero. With \<open>B = b + r\<close>: when \<open>k > 0\<close>, each
  roster entry credits its household by exactly \<open>B * wage_rate / k\<close> (a household is
  credited once per occurrence of its id in the roster, all others are unchanged) and the
  firm balance becomes \<open>B * (1 - wage_rate)\<close>; when \<open>k = 0\<close> the firm balance is \<open>B\<close> and
  the households are unchanged.
\<close>

theorem pay_workers_spec:
  assumes "set (worker_ids f) \<subseteq> fst ` set hhs"
  shows "\<exists>f' hhs'. pay_workers f hhs = Inr (f', hhs') \<and>
     revenue_this_tick f' = 0 \<and> map fst hhs' = map fst hhs \<and>
     (if 0 < length (worker_ids f) then
        f_balance f' = (f_balance f + revenue_this_tick f) * (1 - wage_rate f) \<and>
        (\<forall>key. map_of hhs' key =
           map_option
             (\<lambda>h. h\<lparr>hh_balance := hh_balance h + of_nat (count_list (worker_ids f) key) *
                ((f_balance f + revenue_this_tick f) * wage_rate f
                   / of_nat (length (worker_ids f)))\<rparr>)
             (map_of hhs key))
      else f_balance f' = f_balance f + revenue_this_tick f \<and> hhs' = hhs)"
proof (cases "worker_ids f = []")
  case True
  then show ?thesis by (simp add: pay_workers_def)
next
  case False
  from distribute_wages_ok [OF assms,
      of "(f_balance f + revenue_this_tick f) * wage_rate f / of_nat (length (worker_ids f))"]
  obtain hhs' where
    r: "distribute_wages (worker_ids f)
          ((f_balance f + revenue_this_tick f) * wage_rate f / of_nat (length (worker_ids f)))
          hhs = Inr hhs'" and
    k: "map fst hhs' = map fst hhs" and
    m: "\<And>key. map_of hhs' key =
        map_option (\<lambda>h. h\<lparr>hh_balance := hh_balance h + of_nat (count_list (worker_ids f) key) *
           ((f_balance f + revenue_this_tick f) * wage_rate f / of_nat (length (worker_ids f)))\<rparr>)
          (map_of hhs key)"
    by blast
  from False r k m show ?thesis
    by (simp add: pay_workers_def Let_def algebra_simps)
qed

theorem pay_workers_spec_witness:
  "pay_workers firm_A [(0, hh_A)] =
     Inr (firm_A\<lparr>f_balance := 5, revenue_this_tick := 0\<rparr>, [(0, hh_A\<lparr>hh_balance := 45\<rparr>)])"
  using pay_workers_spec [of firm_A "[(0, hh_A)]"]
  by (simp add: firm_A_def hh_A_def pay_workers_def)

text \<open>
  Claim C7, as stated, fails: the firm of the example has balance 0 before the fold and
  revenue 10; after payday its balance is 5, not \<open>0 * (1 - 1/2) = 0\<close>. The wages are
  computed from the balance after the revenue has been folded in.
\<close>

theorem payday_balance_counterexample:
  "pay_workers firm_A [(0, hh_A)] =
     Inr (firm_A\<lparr>f_balance := 5, revenue_this_tick := 0\<rparr>, [(0, hh_A\<lparr>hh_balance := 45\<rparr>)]) \<and>
   worker_ids firm_A \<noteq> [] \<and>
   f_balance firm_A * (1 - wage_rate firm_A) = 0 \<and>
   f_balance (firm_A\<lparr>f_balance := 5, revenue_this_tick := 0\<rparr>) \<noteq>
     f_balance firm_A * (1 - wage_rate firm_A)"
  by (simp add: firm_A_def hh_A_def pay_workers_def)

text \<open>
  Claim C7, amended. After \<open>pay_workers\<close> (every roster id being a key of the household
  dict) the firm's balance equals \<open>(balance_before_fold + revenue) * (1 - wage_rate)\<close> when
  the roster is non-empty, and \<open>balance_before_fold + revenue\<close> when the roster is empty.
\<close>

theorem payday_balance_after_fold:
  assumes "set (worker_ids f) \<subseteq> fst ` set hhs"
  shows "\<exists>f' hhs'. pay_workers f hhs = Inr (f', hhs') \<and>
     f_balance f' =
       (if worker_ids f \<noteq> [] then (f_balance f + revenue_this_tick f) * (1 - wage_rate f)
        else f_balance f + revenue_this_tick f)"
proof (cases "worker_ids f = []")
  case True
  then show ?thesis by (simp add: pay_workers_def)
next
  case False
  from distribute_wages_ok [OF assms] obtain hhs' where
    "distribute_wages (worker_ids f)
       ((f_balance f + revenue_this_tick f) * wage_rate f / of_nat (length (worker_ids f)))
       hhs = Inr hhs'"
    by blast
  with False show ?thesis
    by (simp add: pay_workers_def Let_def algebra_simps)
qed

theorem payday_balance_after_fold_witness:
  "\<exists>f' hhs'. pay_workers firm_A [(0, hh_A)] = Inr (f', hhs') \<and> f_balance f' = 5"
  using payday_balance_after_fold [of firm_A "[(0, hh_A)]"]
  by (simp add: firm_A_def hh_A_def)

section \<open>The shopping loop\<close>

lemma place_order_and_pay_id:
  "place_order_and_pay hh pr = Inr (hh', q) \<Longrightarrow> hh_id hh' = hh_id hh \<and> hh_size hh' = hh_size hh"
  by (auto simp: place_order_and_pay_def Let_def split: if_splits)

lemma shopping_loop_ConsE:
  assumes "shopping_loop rnd k ((key, hh) # rest) fs ts = Inr (hs', fs', ts')"
  obtains hh' q hs'' where
    "fs \<noteq> []"
    "place_order_and_pay hh (price (snd (fs ! (rnd k mod length fs)))) = Inr (hh', q)"
    "shopping_loop rnd (Suc k) rest (sale_firms fs (rnd k mod length fs) q)
       (ts @ sale_record fs (rnd k mod length fs) hh' q) = Inr (hs'', fs', ts')"
    "hs' = (key, hh') # hs''"
  using assms
  by (auto simp: choice_index_def Let_def sale_firms_def sale_record_def
      split: if_splits sum.splits prod.splits)

lemma firm_static_length: "firm_static fs' = firm_static fs \<Longrightarrow> length fs' = length fs"
  by (metis firm_static_def length_map)

lemma firm_static_nth:
  assumes "firm_static fs' = firm_static fs" "j < length fs"
  shows "fst (fs' ! j) = fst (fs ! j) \<and> price (snd (fs' ! j)) = price (snd (fs ! j)) \<and>
         f_id (snd (fs' ! j)) = f_id (snd (fs ! j)) \<and>
         wage_rate (snd (fs' ! j)) = wage_rate (snd (fs ! j)) \<and>
         worker_ids (snd (fs' ! j)) = worker_ids (snd (fs ! j)) \<and>
         f_balance (snd (fs' ! j)) = f_balance (snd (fs ! j))"
proof -
  have len: "length fs' = length fs" using assms(1) by (rule firm_static_length)
  have "firm_static fs' ! j = firm_static fs ! j" using assms(1) by simp
  then have "fst (fs' ! j) = fst (fs ! j) \<and>
      (snd (fs' ! j))\<lparr>revenue_this_tick := 0\<rparr> = (snd (fs ! j))\<lparr>revenue_this_tick := 0\<rparr>"
    using assms(2) len by (simp add: firm_static_def)
  then show ?thesis
    by (cases "snd (fs' ! j)"; cases "snd (fs ! j)") simp
qed

lemma firm_static_sale: "firm_static (sale_firms fs j q) = firm_static fs"
proof (cases "j < length fs")
  case True
  then show ?thesis
    by (simp add: sale_firms_def firm_static_def receive_payment_def map_update
        list_update_same_conv)
next
  case False
  then have "fs[j := (fst (fs ! j),
      receive_payment (snd (fs ! j)) (of_int q * price (snd (fs ! j))))] = fs"
    by (simp add: list_update_beyond)
  then show ?thesis by (simp add: sale_firms_def)
qed

lemma shopping_loop_static:
  "shopping_loop rnd k hs fs ts = Inr (hs', fs', ts') \<Longrightarrow> firm_static fs' = firm_static fs"
proof (induction hs arbitrary: k fs ts hs')
  case Nil
  then show ?case by simp
next
  case (Cons a hs)
  obtain key hh where a: "a = (key, hh)" by (cases a)
  from Cons.prems [unfolded a] obtain hh' q hs'' where
    "shopping_loop rnd (Suc k) hs (sale_firms fs (rnd k mod length fs) q)
       (ts @ sale_record fs (rnd k mod length fs) hh' q) = Inr (hs'', fs', ts')"
    by (rule shopping_loop_ConsE)
  from Cons.IH [OF this] show ?case
    by (simp add: firm_static_sale)
qed

lemma shopping_record_static:
  assumes "firm_static fs' = firm_static fs"
  shows "shopping_record fs' r hh = shopping_record fs r hh"
proof (cases "fs = []")
  case True
  with assms have "fs' = []" by (simp add: firm_static_def)
  with True show ?thesis by simp
next
  case False
  then have j: "r mod length fs < length fs" by simp
  from firm_static_nth [OF assms j] firm_static_length [OF assms] show ?thesis
    by (simp add: shopping_record_def Let_def split: sum.splits)
qed

lemma shopping_records_static:
  assumes "firm_static fs' = firm_static fs"
  shows "shopping_records rnd k hs fs' = shopping_records rnd k hs fs"
proof (induction hs arbitrary: k)
  case Nil
  show ?case by simp
next
  case (Cons a hs)
  obtain key hh where a: "a = (key, hh)" by (cases a)
  show ?case
    unfolding a
    by (simp only: shopping_records.simps Cons.IH shopping_record_static [OF assms])
qed

lemma shopping_loop_transactions:
  "shopping_loop rnd k hs fs ts = Inr (hs', fs', ts') \<Longrightarrow>
   ts' = ts @ map snd (shopping_records rnd k hs fs)"
proof (induction hs arbitrary: k fs ts hs')
  case Nil
  then show ?case by simp
next
  case (Cons a hs)
  obtain key hh where a: "a = (key, hh)" by (cases a)
  from Cons.prems [unfolded a] obtain hh' q hs'' where
    p: "place_order_and_pay hh (price (snd (fs ! (rnd k mod length fs)))) = Inr (hh', q)" and
    r: "shopping_loop rnd (Suc k) hs (sale_firms fs (rnd k mod length fs) q)
       (ts @ sale_record fs (rnd k mod length fs) hh' q) = Inr (hs'', fs', ts')"
    by (rule shopping_loop_ConsE)
  have "map snd (shopping_record fs (rnd k) hh) = sale_record fs (rnd k mod length fs) hh' q"
    using p place_order_and_pay_id [OF p]
    by (simp add: shopping_record_def sale_record_def Let_def)
  with Cons.IH [OF r] show ?case
    by (simp add: a shopping_records_static [OF firm_static_sale])
qed

lemma shopping_loop_households:
  "shopping_loop rnd k hs fs ts = Inr (hs', fs', ts') \<Longrightarrow>
   length hs' = length hs \<and>
   (\<forall>i<length hs. fst (hs' ! i) = fst (hs ! i) \<and>
      (\<exists>q. place_order_and_pay (snd (hs ! i))
              (price (snd (fs ! (rnd (k + i) mod length fs)))) = Inr (snd (hs' ! i), q)))"
proof (induction hs arbitrary: k fs ts hs')
  case Nil
  then show ?case by simp
next
  case (Cons a hs)
  obtain key hh where a: "a = (key, hh)" by (cases a)
  from Cons.prems [unfolded a] obtain hh' q hs'' where
    ne: "fs \<noteq> []" and
    p: "place_order_and_pay hh (price (snd (fs ! (rnd k mod length fs)))) = Inr (hh', q)" and
    r: "shopping_loop rnd (Suc k) hs (sale_firms fs (rnd k mod length fs) q)
       (ts @ sale_record fs (rnd k mod length fs) hh' q) = Inr (hs'', fs', ts')" and
    h: "hs' = (key, hh') # hs''"
    by (rule shopping_loop_ConsE)
  let ?fs1 = "sale_firms fs (rnd k mod length fs) q"
  have st: "firm_static ?fs1 = firm_static fs" by (rule firm_static_sale)
  have len: "length ?fs1 = length fs" using st by (rule firm_static_length)
  from Cons.IH [OF r] have
    l: "length hs'' = length hs" and
    ih: "\<And>i. i < length hs \<Longrightarrow> fst (hs'' ! i) = fst (hs ! i) \<and>
      (\<exists>q. place_order_and_pay (snd (hs ! i))
              (price (snd (?fs1 ! (rnd (Suc k + i) mod length ?fs1)))) = Inr (snd (hs'' ! i), q))"
    by blast+
  have pr: "price (snd (?fs1 ! (r mod length fs))) = price (snd (fs ! (r mod length fs)))" for r
    using firm_static_nth [OF st, of "r mod length fs"] ne by simp
  show ?case
  proof (intro conjI allI impI)
    show "length hs' = length (a # hs)" using l h by simp
  next
    fix i assume i: "i < length (a # hs)"
    show "fst (hs' ! i) = fst ((a # hs) ! i)"
      using i ih [of "i - 1"] by (cases i) (simp_all add: a h)
  next
    fix i assume i: "i < length (a # hs)"
    show "\<exists>q. place_order_and_pay (snd ((a # hs) ! i))
              (price (snd (fs ! (rnd (k + i) mod length fs)))) = Inr (snd (hs' ! i), q)"
    proof (cases i)
      case 0
      then show ?thesis using p by (simp add: a h)
    next
      case (Suc n)
      with i ih [of n] show ?thesis by (simp add: a h len pr)
    qed
  qed
qed

lemma sales_to_append: "sales_to j (a @ b) = sales_to j a + sales_to j b"
  by (simp add: sales_to_def)

lemma sale_firms_revenue:
  assumes "fs \<noteq> []" "j < length fs"
    "place_order_and_pay hh (price (snd (fs ! (r mod length fs)))) = Inr (hh', q)"
  shows "revenue_this_tick (snd (sale_firms fs (r mod length fs) q ! j)) =
         revenue_this_tick (snd (fs ! j)) + sales_to j (shopping_record fs r hh)"
  using assms
  by (simp add: sale_firms_def shopping_record_def sales_to_def Let_def receive_payment_def
      nth_list_update)

lemma shopping_loop_revenue:
  "shopping_loop rnd k hs fs ts = Inr (hs', fs', ts') \<Longrightarrow> j < length fs \<Longrightarrow>
   revenue_this_tick (snd (fs' ! j)) =
     revenue_this_tick (snd (fs ! j)) + sales_to j (shopping_records rnd k hs fs)"
proof (induction hs arbitrary: k fs ts hs')
  case Nil
  then show ?case by (simp add: sales_to_def)
next
  case (Cons a hs)
  obtain key hh where a: "a = (key, hh)" by (cases a)
  from Cons.prems(1) [unfolded a] obtain hh' q hs'' where
    ne: "fs \<noteq> []" and
    p: "place_order_and_pay hh (price (snd (fs ! (rnd k mod length fs)))) = Inr (hh', q)" and
    r: "shopping_loop rnd (Suc k) hs (sale_firms fs (rnd k mod length fs) q)
       (ts @ sale_record fs (rnd k mod length fs) hh' q) = Inr (hs'', fs', ts')"
    by (rule shopping_loop_ConsE)
  let ?fs1 = "sale_firms fs (rnd k mod length fs) q"
  have st: "firm_static ?fs1 = firm_static fs" by (rule firm_static_sale)
  have len: "length ?fs1 = length fs" using st by (rule firm_static_length)
  from Cons.IH [OF r] Cons.prems(2) len have
    "revenue_this_tick (snd (fs' ! j)) =
       revenue_this_tick (snd (?fs1 ! j)) + sales_to j (shopping_records rnd (Suc k) hs ?fs1)"
    by simp
  then show ?case
    by (simp add: a sales_to_append shopping_records_static [OF st]
        sale_firms_revenue [OF ne Cons.prems(2) p])
qed

lemma shopping_record_positive:
  assumes "fs \<noteq> []" "\<forall>kf\<in>set fs. 0 < price (snd kf)"
    "jt \<in> set (shopping_record fs r hh)"
  shows "0 < amount (snd jt)"
proof -
  have "fs ! (r mod length fs) \<in> set fs" using assms(1) by simp
  with assms(2) have "0 < price (snd (fs ! (r mod length fs)))" by blast
  with assms(3) show ?thesis
    by (auto simp: shopping_record_def Let_def split: sum.splits if_splits)
qed

lemma shopping_records_positive:
  "fs \<noteq> [] \<Longrightarrow> \<forall>kf\<in>set fs. 0 < price (snd kf) \<Longrightarrow>
   jt \<in> set (shopping_records rnd k hs fs) \<Longrightarrow> 0 < amount (snd jt)"
  by (induction hs arbitrary: k) (auto dest: shopping_record_positive)

lemma shopping_loop_firms_nonempty:
  "shopping_loop rnd k hs fs ts = Inr r \<Longrightarrow> hs \<noteq> [] \<Longrightarrow> fs \<noteq> []"
  by (cases hs) (auto simp: choice_index_def split: if_splits)

lemma run_one_tick_phases:
  assumes "run_one_tick rnd s = Inr (s', ts)"
  obtains hhs1 fs1 where
    "shopping_loop rnd 0 (households s) (firms s) [] = Inr (hhs1, fs1, ts)"
    "payday_loop fs1 hhs1 = Inr (firms s', households s')"
    "sim_config s' = sim_config s"
  using assms
  by (auto simp: run_one_tick_def split: sum.splits prod.splits)


section \<open>The example run\<close>

lemma setup_A: "setup_world (\<lambda>k. k) cfg_A = Inr sim_A"
  by (simp add: setup_world_def cfg_A_def sim_A_def create_firms_def range_py_def
      choice_index_def Firm_init_def Household_init_def add_worker_def upt_rec)

lemma tick_A: "run_one_tick (\<lambda>k. 0) sim_A = Inr (sim_A1, ts_A)"
  by (simp add: run_one_tick_def sim_A_def sim_A1_def ts_A_def cfg_A_def choice_index_def
      place_order_and_pay_def determine_food_demand_def receive_payment_def pay_workers_def)

section \<open>One tick\<close>

text \<open>
  Claim C9. The list returned by \<open>run_one_tick\<close> is exactly the list built by the shopping
  loop, which the payday loop neither reads nor extends. It holds, in household order, one
  record \<open>{from_id, to_id, amount = quantity * price}\<close> for each household whose purchased
  quantity is positive and none for a quantity of 0; the same amounts are what the shopping
  loop adds to the revenue accumulator of the chosen firm; and with positive prices no
  record has a zero amount.
\<close>

theorem run_one_tick_transactions:
  assumes "run_one_tick rnd s = Inr (s', ts)"
  shows "\<exists>hhs1 fs1.
     shopping_loop rnd 0 (households s) (firms s) [] = Inr (hhs1, fs1, ts) \<and>
     payday_loop fs1 hhs1 = Inr (firms s', households s') \<and>
     ts = map snd (shopping_records rnd 0 (households s) (firms s)) \<and>
     (\<forall>j<length (firms s).
        revenue_this_tick (snd (fs1 ! j)) =
          revenue_this_tick (snd (firms s ! j)) +
          sales_to j (shopping_records rnd 0 (households s) (firms s))) \<and>
     ((\<forall>kf\<in>set (firms s). 0 < price (snd kf)) \<longrightarrow> (\<forall>t\<in>set ts. 0 < amount t))"
proof -
  from assms obtain hhs1 fs1 where
    sh: "shopping_loop rnd 0 (households s) (firms s) [] = Inr (hhs1, fs1, ts)" and
    pd: "payday_loop fs1 hhs1 = Inr (firms s', households s')"
    by (rule run_one_tick_phases)
  have ts: "ts = map snd (shopping_records rnd 0 (households s) (firms s))"
    using shopping_loop_transactions [OF sh] by simp
  have pos: "0 < amount t"
    if pr: "\<forall>kf\<in>set (firms s). 0 < price (snd kf)" and t: "t \<in> set ts" for t
  proof -
    from t ts obtain jt where
      jt: "jt \<in> set (shopping_records rnd 0 (households s) (firms s))" and "t = snd jt"
      by auto
    from jt have "households s \<noteq> []" by auto
    with sh have "firms s \<noteq> []" by (rule shopping_loop_firms_nonempty)
    from shopping_records_positive [OF this pr jt] \<open>t = snd jt\<close> show ?thesis by simp
  qed
  from sh pd ts shopping_loop_revenue [OF sh] pos show ?thesis
    by blast
qed

theorem run_one_tick_transactions_witness:
  "map snd (shopping_records (\<lambda>k. 0) 0 (households sim_A) (firms sim_A)) = ts_A"
  using run_one_tick_transactions [OF tick_A] by auto


text \<open>
  Claim C4. In a tick, the purchase of each household is computed from the household as it
  stood when the tick began (the \<open>i\<close>-th call of \<open>place_order_and_pay\<close> is applied to the
  \<open>i\<close>-th household of the state before the tick, at the price of the firm drawn for it),
  and the payday loop runs on the households and firms that the complete shopping loop
  returned: no wage of this tick's payday is part of a balance read by this tick's shopping.
\<close>

theorem shopping_uses_pre_tick_balances:
  assumes "run_one_tick rnd s = Inr (s', ts)"
  shows "\<exists>hhs1 fs1.
     shopping_loop rnd 0 (households s) (firms s) [] = Inr (hhs1, fs1, ts) \<and>
     payday_loop fs1 hhs1 = Inr (firms s', households s') \<and>
     length hhs1 = length (households s) \<and>
     (\<forall>i<length (households s).
        \<exists>q. place_order_and_pay (snd (households s ! i))
               (price (snd (firms s ! (rnd i mod length (firms s))))) =
             Inr (snd (hhs1 ! i), q))"
proof -
  from assms obtain hhs1 fs1 where
    sh: "shopping_loop rnd 0 (households s) (firms s) [] = Inr (hhs1, fs1, ts)" and
    pd: "payday_loop fs1 hhs1 = Inr (firms s', households s')"
    by (rule run_one_tick_phases)
  from shopping_loop_households [OF sh] sh pd show ?thesis
    by auto
qed

theorem shopping_uses_pre_tick_balances_witness:
  "\<exists>hhs1 fs1.
     shopping_loop (\<lambda>k. 0) 0 (households sim_A) (firms sim_A) [] = Inr (hhs1, fs1, ts_A) \<and>
     payday_loop fs1 hhs1 = Inr (firms sim_A1, households sim_A1) \<and>
     (\<exists>q. place_order_and_pay \<lparr>hh_id = 0, hh_balance = 50, hh_size = 1, employer_id = Some 0\<rparr> 10
            = Inr (snd (hhs1 ! 0), q))"
proof -
  from shopping_uses_pre_tick_balances [OF tick_A] obtain hhs1 fs1 where
    a: "shopping_loop (\<lambda>k. 0) 0 (households sim_A) (firms sim_A) [] = Inr (hhs1, fs1, ts_A)" and
    b: "payday_loop fs1 hhs1 = Inr (firms sim_A1, households sim_A1)" and
    c: "\<forall>i<length (households sim_A).
        \<exists>q. place_order_and_pay (snd (households sim_A ! i))
               (price (snd (firms sim_A ! (0 mod length (firms sim_A))))) =
             Inr (snd (hhs1 ! i), q)"
    by blast
  have "0 < length (households sim_A)" by (simp add: sim_A_def)
  with c have "\<exists>q. place_order_and_pay (snd (households sim_A ! 0))
               (price (snd (firms sim_A ! (0 mod length (firms sim_A))))) =
             Inr (snd (hhs1 ! 0), q)"
    by blast
  then have "\<exists>q. place_order_and_pay
      \<lparr>hh_id = 0, hh_balance = 50, hh_size = 1, employer_id = Some 0\<rparr> 10 = Inr (snd (hhs1 ! 0), q)"
    by (simp add: sim_A_def)
  with a b show ?thesis by blast
qed

section \<open>Setup\<close>

lemma update_fresh: "k \<notin> fst ` set al \<Longrightarrow> AList.update k v al = al @ [(k, v)]"
  by (induction al) auto

lemma distinct_range_py: "distinct (range_py n)"
  by (simp add: range_py_def distinct_map inj_on_def)

lemma fold_update_fresh:
  "distinct ks \<Longrightarrow> set ks \<inter> fst ` set acc = {} \<Longrightarrow>
   fold (\<lambda>i fs. AList.update i (g i) fs) ks acc = acc @ map (\<lambda>i. (i, g i)) ks"
proof (induction ks arbitrary: acc)
  case Nil
  then show ?case by simp
next
  case (Cons i ks)
  from Cons.prems have fresh: "i \<notin> fst ` set acc" by auto
  have "set ks \<inter> fst ` set (acc @ [(i, g i)]) = {}"
    using Cons.prems by auto
  with Cons.IH [of "acc @ [(i, g i)]"] Cons.prems(1) show ?case
    by (simp add: update_fresh [OF fresh])
qed

lemma create_firms_eq:
  "create_firms cfg =
     map (\<lambda>i. (i, Firm_init i (cfg_p cfg) (cfg_wage_rate cfg))) (range_py (cfg_N_F cfg))"
  using fold_update_fresh [OF distinct_range_py, of "cfg_N_F cfg" "[]"
      "\<lambda>i. Firm_init i (cfg_p cfg) (cfg_wage_rate cfg)"]
  by (simp add: create_firms_def)

lemma create_households_ConsE:
  assumes "create_households rnd k cfg ib firm_ids (i # ids) hhs fs = Inr r"
  obtains f where
    "firm_ids \<noteq> []"
    "map_of fs (firm_ids ! (rnd k mod length firm_ids)) = Some f"
    "create_households rnd (Suc k) cfg ib firm_ids ids
       (AList.update i (new_household cfg ib i (firm_ids ! (rnd k mod length firm_ids))) hhs)
       (AList.update (firm_ids ! (rnd k mod length firm_ids)) (add_worker f i) fs) = Inr r"
  using assms
  by (auto simp: choice_index_def Let_def new_household_def split: if_splits option.splits)

lemma create_households_total:
  "firm_ids \<noteq> [] \<Longrightarrow> set firm_ids \<subseteq> fst ` set fs \<Longrightarrow>
   \<exists>r. create_households rnd k cfg ib firm_ids ids hhs fs = Inr r"
proof (induction ids arbitrary: k hhs fs)
  case Nil
  then show ?case by simp
next
  case (Cons i ids)
  let ?e = "firm_ids ! (rnd k mod length firm_ids)"
  have "?e \<in> set firm_ids" using Cons.prems(1) by simp
  with Cons.prems(2) have mem: "?e \<in> fst ` set fs" by blast
  then obtain f where f: "map_of fs ?e = Some f"
    by (cases "map_of fs ?e") (auto simp: map_of_eq_None_iff)
  have "fst ` set (AList.update ?e (add_worker f i) fs) = fst ` set fs"
    using mem by (auto simp: dom_update)
  with Cons.prems(2) have "set firm_ids \<subseteq> fst ` set (AList.update ?e (add_worker f i) fs)"
    by simp
  from Cons.IH [OF Cons.prems(1) this] Cons.prems(1) f show ?case
    by (simp add: choice_index_def Let_def)
qed

lemma setup_invD_keys:
  "setup_inv cfg ib hhs fs \<Longrightarrow>
   distinct (map fst hhs) \<and> map fst fs = range_py (cfg_N_F cfg)"
  by (simp add: setup_inv_def)

lemma setup_invD_hh:
  "setup_inv cfg ib hhs fs \<Longrightarrow> map_of hhs i = Some h \<Longrightarrow>
   hh_id h = i \<and> hh_balance h = ib \<and> hh_size h = cfg_household_size cfg \<and>
   (\<exists>e. employer_id h = Some e \<and> e \<in> set (range_py (cfg_N_F cfg)))"
  by (simp add: setup_inv_def)

lemma setup_invD_firm:
  "setup_inv cfg ib hhs fs \<Longrightarrow> map_of fs fk = Some f \<Longrightarrow>
   f_id f = fk \<and> price f = cfg_p cfg \<and> wage_rate f = cfg_wage_rate cfg \<and>
   f_balance f = 0 \<and> revenue_this_tick f = 0 \<and>
   (\<forall>i. i \<in> set (worker_ids f) \<longleftrightarrow>
      (\<exists>h. map_of hhs i = Some h \<and> employer_id h = Some fk))"
  by (simp add: setup_inv_def)

lemma map_of_create_firms:
  "map_of (create_firms cfg) fk = Some f \<Longrightarrow>
   f = Firm_init fk (cfg_p cfg) (cfg_wage_rate cfg)"
  by (simp add: create_firms_eq map_of_map_restrict restrict_map_def split: if_splits)

lemma keys_create_firms: "map fst (create_firms cfg) = range_py (cfg_N_F cfg)"
  by (simp add: create_firms_eq comp_def)

lemma setup_inv_init:
  "setup_inv cfg ib [] (create_firms cfg)"
proof -
  have "f_id f = fk \<and> price f = cfg_p cfg \<and> wage_rate f = cfg_wage_rate cfg \<and>
        f_balance f = 0 \<and> revenue_this_tick f = 0 \<and>
        (\<forall>i. i \<in> set (worker_ids f) \<longleftrightarrow>
           (\<exists>h. map_of [] i = Some h \<and> employer_id h = Some fk))"
    if "map_of (create_firms cfg) fk = Some f" for fk f
    using map_of_create_firms [OF that] by (simp add: Firm_init_def)
  then show ?thesis
    by (simp add: setup_inv_def keys_create_firms)
qed

lemma setup_inv_step:
  assumes inv: "setup_inv cfg ib hhs fs"
    and fresh: "i \<notin> fst ` set hhs"
    and e: "e \<in> set (range_py (cfg_N_F cfg))"
    and f: "map_of fs e = Some f"
  shows "setup_inv cfg ib (AList.update i (new_household cfg ib i e) hhs)
           (AList.update e (add_worker f i) fs)"
proof -
  let ?hhs = "AList.update i (new_household cfg ib i e) hhs"
  let ?fs = "AList.update e (add_worker f i) fs"
  have none: "map_of hhs i = None" using fresh by (simp add: map_of_eq_None_iff)
  have keys: "map fst fs = range_py (cfg_N_F cfg)"
    using setup_invD_keys [OF inv] by simp
  have d: "distinct (map fst ?hhs)"
    using setup_invD_keys [OF inv] by (simp add: distinct_update)
  have k: "map fst ?fs = range_py (cfg_N_F cfg)"
    using keys e by (simp add: update_keys)
  have h: "\<forall>j h. map_of ?hhs j = Some h \<longrightarrow>
        hh_id h = j \<and> hh_balance h = ib \<and> hh_size h = cfg_household_size cfg \<and>
        (\<exists>e. employer_id h = Some e \<and> e \<in> set (range_py (cfg_N_F cfg)))"
  proof (intro allI impI)
    fix j h assume a: "map_of ?hhs j = Some h"
    show "hh_id h = j \<and> hh_balance h = ib \<and> hh_size h = cfg_household_size cfg \<and>
        (\<exists>e. employer_id h = Some e \<and> e \<in> set (range_py (cfg_N_F cfg)))"
    proof (cases "j = i")
      case True
      with a have "h = new_household cfg ib i e" by (simp add: update_conv')
      with True e show ?thesis by (simp add: new_household_def Household_init_def)
    next
      case False
      with a have "map_of hhs j = Some h" by (simp add: update_conv')
      then show ?thesis by (rule setup_invD_hh [OF inv])
    qed
  qed
  have g: "\<forall>fk g. map_of ?fs fk = Some g \<longrightarrow>
        f_id g = fk \<and> price g = cfg_p cfg \<and> wage_rate g = cfg_wage_rate cfg \<and>
        f_balance g = 0 \<and> revenue_this_tick g = 0 \<and>
        (\<forall>j. j \<in> set (worker_ids g) \<longleftrightarrow>
           (\<exists>h. map_of ?hhs j = Some h \<and> employer_id h = Some fk))"
  proof (intro allI impI)
    fix fk g assume a: "map_of ?fs fk = Some g"
    have ex: "(\<exists>h. map_of ?hhs j = Some h \<and> employer_id h = Some fk) \<longleftrightarrow>
          (j = i \<and> fk = e) \<or> (\<exists>h. map_of hhs j = Some h \<and> employer_id h = Some fk)" for j
      using none
      by (cases "j = i") (auto simp: update_conv' new_household_def Household_init_def)
    show "f_id g = fk \<and> price g = cfg_p cfg \<and> wage_rate g = cfg_wage_rate cfg \<and>
        f_balance g = 0 \<and> revenue_this_tick g = 0 \<and>
        (\<forall>j. j \<in> set (worker_ids g) \<longleftrightarrow>
           (\<exists>h. map_of ?hhs j = Some h \<and> employer_id h = Some fk))"
    proof (cases "fk = e")
      case True
      with a have g: "g = add_worker f i" by (simp add: update_conv')
      have "\<forall>j. j \<in> set (worker_ids g) \<longleftrightarrow>
           (\<exists>h. map_of ?hhs j = Some h \<and> employer_id h = Some fk)"
        unfolding ex using setup_invD_firm [OF inv f] True
        by (auto simp: g add_worker_def)
      with setup_invD_firm [OF inv f] True show ?thesis
        by (simp add: g add_worker_def)
    next
      case False
      with a have m: "map_of fs fk = Some g" by (simp add: update_conv')
      have "\<forall>j. j \<in> set (worker_ids g) \<longleftrightarrow>
           (\<exists>h. map_of ?hhs j = Some h \<and> employer_id h = Some fk)"
        unfolding ex using setup_invD_firm [OF inv m] False
        by simp
      with setup_invD_firm [OF inv m] show ?thesis
        by simp
    qed
  qed
  show ?thesis
    unfolding setup_inv_def by (intro conjI d k h g)
qed

lemma create_households_inv:
  "create_households rnd k cfg ib (range_py (cfg_N_F cfg)) ids hhs fs = Inr (hhs', fs') \<Longrightarrow>
   setup_inv cfg ib hhs fs \<Longrightarrow> distinct ids \<Longrightarrow> set ids \<inter> fst ` set hhs = {} \<Longrightarrow>
   setup_inv cfg ib hhs' fs' \<and> map fst hhs' = map fst hhs @ ids"
proof (induction ids arbitrary: k hhs fs)
  case Nil
  then show ?case by simp
next
  case (Cons i ids)
  let ?e = "range_py (cfg_N_F cfg) ! (rnd k mod length (range_py (cfg_N_F cfg)))"
  from Cons.prems(1) obtain f where
    ne: "range_py (cfg_N_F cfg) \<noteq> []" and
    f: "map_of fs ?e = Some f" and
    r: "create_households rnd (Suc k) cfg ib (range_py (cfg_N_F cfg)) ids
       (AList.update i (new_household cfg ib i ?e) hhs)
       (AList.update ?e (add_worker f i) fs) = Inr (hhs', fs')"
    by (rule create_households_ConsE)
  have e: "?e \<in> set (range_py (cfg_N_F cfg))" using ne by simp
  have fresh: "i \<notin> fst ` set hhs" using Cons.prems(4) by auto
  have upd: "AList.update i (new_household cfg ib i ?e) hhs =
      hhs @ [(i, new_household cfg ib i ?e)]"
    using fresh by (rule update_fresh)
  have inv1: "setup_inv cfg ib (AList.update i (new_household cfg ib i ?e) hhs)
           (AList.update ?e (add_worker f i) fs)"
    using Cons.prems(2) fresh e f by (rule setup_inv_step)
  have dist: "distinct ids" using Cons.prems(3) by simp
  have disj: "set ids \<inter> fst ` set (AList.update i (new_household cfg ib i ?e) hhs) = {}"
    using Cons.prems(3,4) by (auto simp: upd)
  from Cons.IH [OF r inv1 dist disj] show ?case
    by (simp add: upd)
qed

lemma setup_world_total:
  assumes "0 < cfg_N_F cfg" "0 < cfg_N_H cfg"
  shows "\<exists>s. setup_world rnd cfg = Inr s"
proof -
  have ne: "range_py (cfg_N_F cfg) \<noteq> []"
    using assms(1) by (simp add: range_py_def)
  have "set (range_py (cfg_N_F cfg)) \<subseteq> fst ` set (create_firms cfg)"
    by (metis keys_create_firms list.set_map subset_refl)
  from create_households_total [OF ne this] obtain r where
    "create_households rnd 0 cfg (cfg_M0 cfg / of_int (cfg_N_H cfg)) (range_py (cfg_N_F cfg))
       (range_py (cfg_N_H cfg)) [] (create_firms cfg) = Inr r"
    by blast
  with assms(2) show ?thesis
    by (cases r) (simp add: setup_world_def Let_def keys_create_firms)
qed

lemma setup_world_inv:
  assumes "setup_world rnd cfg = Inr s"
  shows "sim_config s = cfg \<and>
         setup_inv cfg (cfg_M0 cfg / of_int (cfg_N_H cfg)) (households s) (firms s) \<and>
         map fst (households s) = range_py (cfg_N_H cfg)"
proof -
  from assms obtain hhs fs where
    c: "create_households rnd 0 cfg (cfg_M0 cfg / of_int (cfg_N_H cfg))
          (range_py (cfg_N_F cfg)) (range_py (cfg_N_H cfg)) [] (create_firms cfg) =
        Inr (hhs, fs)" and
    s: "s = \<lparr>sim_config = cfg, households = hhs, firms = fs\<rparr>"
    by (auto simp: setup_world_def Let_def keys_create_firms split: if_splits sum.splits)
  from create_households_inv [OF c setup_inv_init distinct_range_py] s show ?thesis
    by simp
qed

lemma sum_list_const:
  fixes f :: "'a \<Rightarrow> rat"
  shows "(\<And>x. x \<in> set xs \<Longrightarrow> f x = c) \<Longrightarrow> sum_list (map f xs) = of_nat (length xs) * c"
  by (induction xs) (simp_all add: algebra_simps)

lemma length_range_py: "length (range_py n) = nat n"
  by (simp add: range_py_def)


text \<open>
  Claim C8. For every configuration with \<open>N_F > 0\<close> and \<open>N_H > 0\<close>, setup completes, for
  any random draws. Afterwards the firm ids are exactly \<open>0, ..., N_F - 1\<close> and the household
  ids exactly \<open>0, ..., N_H - 1\<close> (as dict keys, in this order, and as the \<open>id\<close> fields);
  every household has one employer, which is the one firm whose roster contains the
  household's id; every household's balance is \<open>M0 / N_H\<close>, and the household balances
  add up to \<open>M0\<close>.
\<close>

theorem setup_world_spec:
  assumes "0 < cfg_N_F cfg" "0 < cfg_N_H cfg"
  shows "\<exists>s. setup_world rnd cfg = Inr s \<and>
     map fst (firms s) = range_py (cfg_N_F cfg) \<and>
     (\<forall>(fk, f) \<in> set (firms s). f_id f = fk) \<and>
     map fst (households s) = range_py (cfg_N_H cfg) \<and>
     (\<forall>(k, h) \<in> set (households s).
        hh_id h = k \<and> hh_balance h = cfg_M0 cfg / of_int (cfg_N_H cfg) \<and>
        (\<exists>e. employer_id h = Some e \<and> e \<in> set (map fst (firms s)) \<and>
           (\<forall>(fk, f) \<in> set (firms s). k \<in> set (worker_ids f) \<longleftrightarrow> fk = e))) \<and>
     sum_household_balances (households s) = cfg_M0 cfg"
proof -
  let ?ib = "cfg_M0 cfg / of_int (cfg_N_H cfg)"
  from setup_world_total [OF assms] obtain s where s: "setup_world rnd cfg = Inr s"
    by blast
  from setup_world_inv [OF s] have
    inv: "setup_inv cfg ?ib (households s) (firms s)" and
    hk: "map fst (households s) = range_py (cfg_N_H cfg)"
    by simp_all
  from setup_invD_keys [OF inv] have
    dh: "distinct (map fst (households s))" and
    fk: "map fst (firms s) = range_py (cfg_N_F cfg)"
    by simp_all
  have df: "distinct (map fst (firms s))" by (simp add: fk distinct_range_py)
  have firm: "f_id f = k" if "(k, f) \<in> set (firms s)" for k f
    using setup_invD_firm [OF inv map_of_is_SomeI [OF df that]] by simp
  have hh: "hh_id h = k \<and> hh_balance h = ?ib \<and>
        (\<exists>e. employer_id h = Some e \<and> e \<in> set (map fst (firms s)) \<and>
           (\<forall>(fk, f) \<in> set (firms s). k \<in> set (worker_ids f) \<longleftrightarrow> fk = e))"
    if mem: "(k, h) \<in> set (households s)" for k h
  proof -
    have m: "map_of (households s) k = Some h" using dh mem by (rule map_of_is_SomeI)
    from setup_invD_hh [OF inv m] obtain e where
      b: "hh_id h = k" "hh_balance h = ?ib" and
      e: "employer_id h = Some e" "e \<in> set (range_py (cfg_N_F cfg))"
      by blast
    have "k \<in> set (worker_ids f) \<longleftrightarrow> fk' = e" if "(fk', f) \<in> set (firms s)" for fk' f
      using setup_invD_firm [OF inv map_of_is_SomeI [OF df that]] m e(1) by auto
    with b e show ?thesis by (auto simp: fk)
  qed
  have "sum_household_balances (households s) = of_nat (length (households s)) * ?ib"
    unfolding sum_household_balances_def
    by (rule sum_list_const) (use hh in auto)
  also have "length (households s) = nat (cfg_N_H cfg)"
    by (metis hk length_map length_range_py)
  also have "of_nat (nat (cfg_N_H cfg)) * ?ib = cfg_M0 cfg"
    using assms(2) by simp
  finally have sum: "sum_household_balances (households s) = cfg_M0 cfg" .
  from s fk hk firm hh sum show ?thesis
    by (intro exI [of _ s]) auto
qed

theorem setup_world_spec_witness:
  "\<exists>s. setup_world (\<lambda>k. k) cfg_A = Inr s \<and> map fst (firms s) = [0, 1] \<and>
     map fst (households s) = [0, 1] \<and> sum_household_balances (households s) = 100"
proof -
  have c: "0 < cfg_N_F cfg_A" "0 < cfg_N_H cfg_A" by (simp_all add: cfg_A_def)
  have r: "range_py (cfg_N_F cfg_A) = [0, 1]" "range_py (cfg_N_H cfg_A) = [0, 1]"
    "cfg_M0 cfg_A = 100"
    by (simp_all add: cfg_A_def range_py_def upt_rec)
  from setup_world_spec [OF c, of "\<lambda>k. k"] obtain s where
    "setup_world (\<lambda>k. k) cfg_A = Inr s" "map fst (firms s) = [0, 1]"
    "map fst (households s) = [0, 1]" "sum_household_balances (households s) = 100"
    unfolding r by (elim exE conjE)
  then show ?thesis by (intro exI [of _ s] conjI)
qed

section \<open>Invariants and conservation\<close>

lemma set_alist_update_subset: "set (AList.update k v al) \<subseteq> insert (k, v) (set al)"
  by (induction al) auto

lemma sum_update_credit:
  "map_of hhs k = Some h \<Longrightarrow>
   sum_household_balances (AList.update k (h\<lparr>hh_balance := hh_balance h + w\<rparr>) hhs) =
   sum_household_balances hhs + w"
  by (induction hhs) (auto simp: sum_household_balances_def)

lemma distribute_wages_keys:
  "distribute_wages ws w hhs = Inr hhs' \<Longrightarrow> map fst hhs' = map fst hhs"
proof (induction ws arbitrary: hhs)
  case Nil
  then show ?case by simp
next
  case (Cons k ws)
  from Cons.prems obtain h where
    h: "map_of hhs k = Some h" and
    r: "distribute_wages ws w (AList.update k (h\<lparr>hh_balance := hh_balance h + w\<rparr>) hhs) =
        Inr hhs'"
    by (auto split: option.splits)
  from h have "k \<in> fst ` set hhs" by (metis map_of_eq_None_iff option.distinct(1))
  with Cons.IH [OF r] show ?case by (simp add: update_keys_present)
qed

lemma distribute_wages_sum:
  "distribute_wages ws w hhs = Inr hhs' \<Longrightarrow>
   sum_household_balances hhs' = sum_household_balances hhs + of_nat (length ws) * w"
proof (induction ws arbitrary: hhs)
  case Nil
  then show ?case by simp
next
  case (Cons k ws)
  from Cons.prems obtain h where
    h: "map_of hhs k = Some h" and
    r: "distribute_wages ws w (AList.update k (h\<lparr>hh_balance := hh_balance h + w\<rparr>) hhs) =
        Inr hhs'"
    by (auto split: option.splits)
  have "sum_household_balances hhs' =
      sum_household_balances (AList.update k (h\<lparr>hh_balance := hh_balance h + w\<rparr>) hhs) +
      of_nat (length ws) * w"
    by (rule Cons.IH [OF r])
  also have "sum_household_balances
      (AList.update k (h\<lparr>hh_balance := hh_balance h + w\<rparr>) hhs) =
      sum_household_balances hhs + w"
    by (rule sum_update_credit [OF h])
  finally show ?case by (simp add: algebra_simps)
qed

lemma distribute_wages_hh:
  assumes "distribute_wages ws w hhs = Inr hhs'" "0 \<le> w"
  shows "(hh_nonneg hhs \<longrightarrow> hh_nonneg hhs') \<and> (hh_ok hhs \<longrightarrow> hh_ok hhs')"
  using assms(1)
proof (induction ws arbitrary: hhs)
  case Nil
  then show ?case by simp
next
  case (Cons k ws)
  from Cons.prems obtain h where
    h: "map_of hhs k = Some h" and
    r: "distribute_wages ws w (AList.update k (h\<lparr>hh_balance := hh_balance h + w\<rparr>) hhs) =
        Inr hhs'"
    by (auto split: option.splits)
  let ?hhs1 = "AList.update k (h\<lparr>hh_balance := hh_balance h + w\<rparr>) hhs"
  have mem: "(k, h) \<in> set hhs" using h by (rule map_of_SomeD)
  have sub: "set ?hhs1 \<subseteq> insert (k, h\<lparr>hh_balance := hh_balance h + w\<rparr>) (set hhs)"
    by (rule set_alist_update_subset)
  have a: "hh_nonneg ?hhs1" if "hh_nonneg hhs"
    using that mem sub assms(2) unfolding hh_nonneg_def by fastforce
  have b: "hh_ok ?hhs1" if "hh_ok hhs"
    using that mem sub assms(2) unfolding hh_ok_def by fastforce
  from Cons.IH [OF r] a b show ?case by blast
qed

lemma pay_workers_cases:
  assumes "pay_workers f hhs = Inr (f', hhs')"
  shows "(worker_ids f = [] \<and> hhs' = hhs \<and>
          f' = f\<lparr>f_balance := f_balance f + revenue_this_tick f, revenue_this_tick := 0\<rparr>) \<or>
         (worker_ids f \<noteq> [] \<and>
          distribute_wages (worker_ids f)
            ((f_balance f + revenue_this_tick f) * wage_rate f / of_nat (length (worker_ids f)))
            hhs = Inr hhs' \<and>
          f' = f\<lparr>f_balance := f_balance f + revenue_this_tick f -
                   (f_balance f + revenue_this_tick f) * wage_rate f,
                 revenue_this_tick := 0\<rparr>)"
  using assms
  by (auto simp: pay_workers_def Let_def split: if_splits sum.splits)

lemma pay_workers_static:
  assumes "pay_workers f hhs = Inr (f', hhs')"
  shows "worker_ids f' = worker_ids f \<and> price f' = price f \<and> wage_rate f' = wage_rate f \<and>
         f_id f' = f_id f \<and> revenue_this_tick f' = 0"
  using pay_workers_cases [OF assms] by auto

lemma pay_workers_keys:
  assumes "pay_workers f hhs = Inr (f', hhs')"
  shows "map fst hhs' = map fst hhs"
  using pay_workers_cases [OF assms] by (auto dest: distribute_wages_keys)

lemma pay_workers_sum:
  assumes "pay_workers f hhs = Inr (f', hhs')"
  shows "sum_household_balances hhs' + (f_balance f' + revenue_this_tick f') =
         sum_household_balances hhs + (f_balance f + revenue_this_tick f)"
proof -
  from pay_workers_cases [OF assms] show ?thesis
  proof (elim disjE conjE)
    assume "worker_ids f = []" "hhs' = hhs"
      "f' = f\<lparr>f_balance := f_balance f + revenue_this_tick f, revenue_this_tick := 0\<rparr>"
    then show ?thesis by simp
  next
    let ?tp = "(f_balance f + revenue_this_tick f) * wage_rate f"
    assume ne: "worker_ids f \<noteq> []"
      and d: "distribute_wages (worker_ids f) (?tp / of_nat (length (worker_ids f))) hhs =
          Inr hhs'"
      and f': "f' = f\<lparr>f_balance := f_balance f + revenue_this_tick f - ?tp,
                 revenue_this_tick := 0\<rparr>"
    have "sum_household_balances hhs' =
        sum_household_balances hhs +
        of_nat (length (worker_ids f)) * (?tp / of_nat (length (worker_ids f)))"
      using d by (rule distribute_wages_sum)
    also have "of_nat (length (worker_ids f)) * (?tp / of_nat (length (worker_ids f))) = ?tp"
      using ne by simp
    finally show ?thesis by (simp add: f')
  qed
qed

lemma pay_workers_firm_nonneg:
  assumes "pay_workers f hhs = Inr (f', hhs')"
    "0 \<le> f_balance f" "0 \<le> revenue_this_tick f" "wage_rate f \<le> 1"
  shows "0 \<le> f_balance f'"
proof -
  have "0 \<le> (f_balance f + revenue_this_tick f) * (1 - wage_rate f)"
    using assms(2-4) by simp
  then have "0 \<le> f_balance f + revenue_this_tick f -
      (f_balance f + revenue_this_tick f) * wage_rate f"
    by (simp add: algebra_simps)
  with pay_workers_cases [OF assms(1)] assms(2,3) show ?thesis by auto
qed

lemma pay_workers_hh:
  assumes "pay_workers f hhs = Inr (f', hhs')"
    "0 \<le> f_balance f" "0 \<le> revenue_this_tick f" "0 \<le> wage_rate f"
  shows "(hh_nonneg hhs \<longrightarrow> hh_nonneg hhs') \<and> (hh_ok hhs \<longrightarrow> hh_ok hhs')"
proof -
  have "0 \<le> (f_balance f + revenue_this_tick f) * wage_rate f / of_nat (length (worker_ids f))"
    using assms(2-4) by simp
  with pay_workers_cases [OF assms(1)] show ?thesis
    by (auto dest: distribute_wages_hh)
qed

lemma pay_workers_total:
  assumes "set (worker_ids f) \<subseteq> fst ` set hhs"
  shows "\<exists>r. pay_workers f hhs = Inr r"
proof (cases "worker_ids f = []")
  case True
  then show ?thesis by (simp add: pay_workers_def)
next
  case False
  from distribute_wages_ok [OF assms] obtain hhs' where
    "distribute_wages (worker_ids f)
       ((f_balance f + revenue_this_tick f) * wage_rate f / of_nat (length (worker_ids f)))
       hhs = Inr hhs'"
    by blast
  with False show ?thesis by (simp add: pay_workers_def Let_def)
qed

lemma payday_loop_ConsE:
  assumes "payday_loop ((key, f) # rest) hhs = Inr (fs', hhs'')"
  obtains f' hhs1 fs1 where
    "pay_workers f hhs = Inr (f', hhs1)"
    "payday_loop rest hhs1 = Inr (fs1, hhs'')"
    "fs' = (key, f') # fs1"
  using assms by (auto split: sum.splits prod.splits)

lemma rosters_ok_keys:
  assumes "map fst hhs' = map fst hhs"
  shows "rosters_ok fs hhs' = rosters_ok fs hhs"
proof -
  have "fst ` set hhs' = fst ` set hhs" using assms by (metis list.set_map)
  then show ?thesis by (simp add: rosters_ok_def)
qed

lemma payday_loop_keys:
  "payday_loop fs hhs = Inr (fs', hhs') \<Longrightarrow> map fst hhs' = map fst hhs"
proof (induction fs arbitrary: hhs fs')
  case Nil
  then show ?case by simp
next
  case (Cons a fs)
  obtain key f where a: "a = (key, f)" by (cases a)
  from Cons.prems [unfolded a] obtain f' hhs1 fs1 where
    p: "pay_workers f hhs = Inr (f', hhs1)" and
    r: "payday_loop fs hhs1 = Inr (fs1, hhs')"
    by (rule payday_loop_ConsE)
  from Cons.IH [OF r] pay_workers_keys [OF p] show ?case by simp
qed

lemma payday_loop_sum:
  "payday_loop fs hhs = Inr (fs', hhs') \<Longrightarrow>
   sum_household_balances hhs' + sum_firm_balances fs' =
   sum_household_balances hhs + sum_firm_balances fs"
proof (induction fs arbitrary: hhs fs')
  case Nil
  then show ?case by simp
next
  case (Cons a fs)
  obtain key f where a: "a = (key, f)" by (cases a)
  from Cons.prems [unfolded a] obtain f' hhs1 fs1 where
    p: "pay_workers f hhs = Inr (f', hhs1)" and
    r: "payday_loop fs hhs1 = Inr (fs1, hhs')" and
    e: "fs' = (key, f') # fs1"
    by (rule payday_loop_ConsE)
  from Cons.IH [OF r] pay_workers_sum [OF p] show ?case
    by (simp add: a e sum_firm_balances_def)
qed

lemma payday_loop_firms_ok:
  "payday_loop fs hhs = Inr (fs', hhs') \<Longrightarrow> firms_ok fs \<Longrightarrow> firms_ok fs'"
proof (induction fs arbitrary: hhs fs')
  case Nil
  then show ?case by simp
next
  case (Cons a fs)
  obtain key f where a: "a = (key, f)" by (cases a)
  from Cons.prems(1) [unfolded a] obtain f' hhs1 fs1 where
    p: "pay_workers f hhs = Inr (f', hhs1)" and
    r: "payday_loop fs hhs1 = Inr (fs1, hhs')" and
    e: "fs' = (key, f') # fs1"
    by (rule payday_loop_ConsE)
  from Cons.prems(2) have f: "0 < price f" "0 \<le> wage_rate f" "wage_rate f \<le> 1"
    "0 \<le> f_balance f" "0 \<le> revenue_this_tick f" and rest: "firms_ok fs"
    by (simp_all add: a firms_ok_def)
  from pay_workers_static [OF p] pay_workers_firm_nonneg [OF p f(4,5,3)] f Cons.IH [OF r rest]
  show ?case by (simp add: e firms_ok_def)
qed

lemma payday_loop_hh:
  "payday_loop fs hhs = Inr (fs', hhs') \<Longrightarrow> firms_ok fs \<Longrightarrow>
   (hh_nonneg hhs \<longrightarrow> hh_nonneg hhs') \<and> (hh_ok hhs \<longrightarrow> hh_ok hhs')"
proof (induction fs arbitrary: hhs fs')
  case Nil
  then show ?case by simp
next
  case (Cons a fs)
  obtain key f where a: "a = (key, f)" by (cases a)
  from Cons.prems(1) [unfolded a] obtain f' hhs1 fs1 where
    p: "pay_workers f hhs = Inr (f', hhs1)" and
    r: "payday_loop fs hhs1 = Inr (fs1, hhs')"
    by (rule payday_loop_ConsE)
  from Cons.prems(2) have f: "0 \<le> f_balance f" "0 \<le> revenue_this_tick f" "0 \<le> wage_rate f"
    and rest: "firms_ok fs"
    by (simp_all add: a firms_ok_def)
  from pay_workers_hh [OF p f] Cons.IH [OF r rest] show ?case by blast
qed

lemma payday_loop_rosters:
  "payday_loop fs hhs = Inr (fs', hhs') \<Longrightarrow> rosters_ok fs hhs \<Longrightarrow>
   rosters_ok fs' hhs' \<and> length fs' = length fs"
proof (induction fs arbitrary: hhs fs')
  case Nil
  then show ?case by (simp add: rosters_ok_def)
next
  case (Cons a fs)
  obtain key f where a: "a = (key, f)" by (cases a)
  from Cons.prems(1) [unfolded a] obtain f' hhs1 fs1 where
    p: "pay_workers f hhs = Inr (f', hhs1)" and
    r: "payday_loop fs hhs1 = Inr (fs1, hhs')" and
    e: "fs' = (key, f') # fs1"
    by (rule payday_loop_ConsE)
  have k1: "map fst hhs1 = map fst hhs" using p by (rule pay_workers_keys)
  have k2: "map fst hhs' = map fst hhs1" using r by (rule payday_loop_keys)
  from Cons.prems(2) have f: "set (worker_ids f) \<subseteq> fst ` set hhs" and rest: "rosters_ok fs hhs"
    by (simp_all add: a rosters_ok_def)
  have "rosters_ok fs hhs1" using rest by (simp add: rosters_ok_keys [OF k1])
  from Cons.IH [OF r this] have ih: "rosters_ok fs1 hhs'" "length fs1 = length fs" by simp_all
  have "fst ` set hhs' = fst ` set hhs" using k1 k2 by (metis list.set_map)
  with f pay_workers_static [OF p] ih show ?case
    by (simp add: e rosters_ok_def)
qed

lemma payday_loop_total:
  "rosters_ok fs hhs \<Longrightarrow> \<exists>r. payday_loop fs hhs = Inr r"
proof (induction fs arbitrary: hhs)
  case Nil
  then show ?case by simp
next
  case (Cons a fs)
  obtain key f where a: "a = (key, f)" by (cases a)
  from Cons.prems have f: "set (worker_ids f) \<subseteq> fst ` set hhs" and rest: "rosters_ok fs hhs"
    by (simp_all add: a rosters_ok_def)
  from pay_workers_total [OF f] obtain f' hhs1 where p: "pay_workers f hhs = Inr (f', hhs1)"
    by fastforce
  have "rosters_ok fs hhs1"
    using rest by (simp add: rosters_ok_keys [OF pay_workers_keys [OF p]])
  from Cons.IH [OF this] obtain r where "payday_loop fs hhs1 = Inr r" by blast
  with p show ?case by (cases r) (simp add: a)
qed

lemma place_order_and_pay_debit:
  "place_order_and_pay h pr = Inr (h', q) \<Longrightarrow> hh_balance h' = hh_balance h - of_int q * pr"
  by (auto simp: place_order_and_pay_def determine_food_demand_def Let_def split: if_splits)

lemma place_order_and_pay_total:
  "pr \<noteq> 0 \<Longrightarrow> \<exists>r. place_order_and_pay h pr = Inr r"
  by (simp add: place_order_and_pay_def Let_def)

lemma place_order_and_pay_nonneg:
  assumes "place_order_and_pay h pr = Inr (h', q)" "0 \<le> hh_balance h" "0 < pr"
  shows "0 \<le> hh_balance h'"
proof (cases "of_int (hh_size h) * pr \<le> hh_balance h")
  case True
  with assms(1) show ?thesis
    by (auto simp: place_order_and_pay_def determine_food_demand_def Let_def)
next
  case False
  with assms have "h' = h\<lparr>hh_balance := hh_balance h - of_int \<lfloor>hh_balance h / pr\<rfloor> * pr\<rparr>"
    by (auto simp: place_order_and_pay_def determine_food_demand_def Let_def py_int_nonneg)
  with floor_div_mult_le [OF assms(3), of "hh_balance h"] show ?thesis by simp
qed

lemma place_order_and_pay_quantity:
  assumes "place_order_and_pay h pr = Inr (h', q)" "0 \<le> hh_balance h" "0 \<le> hh_size h" "0 < pr"
  shows "0 \<le> q"
  using assms
  by (auto simp: place_order_and_pay_def determine_food_demand_def Let_def py_int_nonneg
      split: if_splits)

lemma sale_firms_ok:
  assumes "firms_ok fs" "j < length fs"
  shows "firms_ok (sale_firms fs j q)"
proof (cases "0 < q")
  case False
  with assms(1) show ?thesis by (simp add: sale_firms_def)
next
  case True
  let ?x = "(fst (fs ! j), receive_payment (snd (fs ! j)) (of_int q * price (snd (fs ! j))))"
  have mem: "fs ! j \<in> set fs" using assms(2) by simp
  with assms(1) have old: "0 < price (snd (fs ! j))" "0 \<le> wage_rate (snd (fs ! j))"
    "wage_rate (snd (fs ! j)) \<le> 1" "0 \<le> f_balance (snd (fs ! j))"
    "0 \<le> revenue_this_tick (snd (fs ! j))"
    unfolding firms_ok_def by blast+
  have "0 \<le> of_int q * price (snd (fs ! j))" using True old(1) by simp
  with old have x: "0 < price (snd ?x) \<and> 0 \<le> wage_rate (snd ?x) \<and> wage_rate (snd ?x) \<le> 1 \<and>
        0 \<le> f_balance (snd ?x) \<and> 0 \<le> revenue_this_tick (snd ?x)"
    by (simp add: receive_payment_def)
  have "set (fs[j := ?x]) \<subseteq> insert ?x (set fs)" by (rule set_update_subset_insert)
  with assms(1) x have "firms_ok (fs[j := ?x])"
    unfolding firms_ok_def by blast
  with True show ?thesis by (simp add: sale_firms_def)
qed

lemma length_sale_firms: "length (sale_firms fs j q) = length fs"
  by (simp add: sale_firms_def)

lemma firms_ok_price: "firms_ok fs \<Longrightarrow> j < length fs \<Longrightarrow> 0 < price (snd (fs ! j))"
  by (simp add: firms_ok_def)

lemma shopping_loop_ok:
  "shopping_loop rnd k hs fs ts = Inr (hs', fs', ts') \<Longrightarrow> firms_ok fs \<Longrightarrow>
   firms_ok fs' \<and> map fst hs' = map fst hs \<and>
   (hh_nonneg hs \<longrightarrow> hh_nonneg hs') \<and> (hh_ok hs \<longrightarrow> hh_ok hs')"
proof (induction hs arbitrary: k fs ts hs')
  case Nil
  then show ?case by simp
next
  case (Cons a hs)
  obtain key hh where a: "a = (key, hh)" by (cases a)
  let ?j = "rnd k mod length fs"
  from Cons.prems(1) [unfolded a] obtain hh' q hs'' where
    ne: "fs \<noteq> []" and
    p: "place_order_and_pay hh (price (snd (fs ! ?j))) = Inr (hh', q)" and
    r: "shopping_loop rnd (Suc k) hs (sale_firms fs ?j q)
       (ts @ sale_record fs ?j hh' q) = Inr (hs'', fs', ts')" and
    h: "hs' = (key, hh') # hs''"
    by (rule shopping_loop_ConsE)
  have j: "?j < length fs" using ne by simp
  have pr: "0 < price (snd (fs ! ?j))" using Cons.prems(2) j by (rule firms_ok_price)
  from Cons.IH [OF r sale_firms_ok [OF Cons.prems(2) j]] have
    ih: "firms_ok fs'" "map fst hs'' = map fst hs"
      "hh_nonneg hs \<longrightarrow> hh_nonneg hs''" "hh_ok hs \<longrightarrow> hh_ok hs''"
    by simp_all
  have n: "hh_nonneg hs'" if "hh_nonneg (a # hs)"
    using that ih(3) place_order_and_pay_nonneg [OF p _ pr]
    by (simp add: a h hh_nonneg_def)
  have o: "hh_ok hs'" if "hh_ok (a # hs)"
    using that ih(4) place_order_and_pay_nonneg [OF p _ pr] place_order_and_pay_id [OF p]
    by (simp add: a h hh_ok_def)
  from ih(1,2) n o show ?case by (simp add: a h)
qed

lemma rosters_ok_static:
  assumes "firm_static fs' = firm_static fs"
  shows "rosters_ok fs' hhs = rosters_ok fs hhs"
proof -
  have len: "length fs' = length fs" using assms by (rule firm_static_length)
  have "worker_ids (snd (fs' ! j)) = worker_ids (snd (fs ! j))" if "j < length fs" for j
    using firm_static_nth [OF assms that] by simp
  then show ?thesis
    by (simp add: rosters_ok_def all_set_conv_all_nth len)
qed

lemma sum_list_update_rat:
  fixes xs :: "rat list"
  shows "k < length xs \<Longrightarrow> sum_list (xs[k := x]) = sum_list xs + x - xs ! k"
  by (induction xs arbitrary: k) (auto split: nat.splits)

lemma sum_firm_sale:
  assumes "j < length fs"
  shows "sum_firm_balances (sale_firms fs j q) =
         sum_firm_balances fs + (if 0 < q then of_int q * price (snd (fs ! j)) else 0)"
proof (cases "0 < q")
  case False
  then show ?thesis by (simp add: sale_firms_def)
next
  case True
  let ?g = "\<lambda>kf. f_balance (snd kf) + revenue_this_tick (snd kf)"
  let ?x = "(fst (fs ! j), receive_payment (snd (fs ! j)) (of_int q * price (snd (fs ! j))))"
  have "sum_list (map ?g (fs[j := ?x])) = sum_list ((map ?g fs)[j := ?g ?x])"
    by (simp add: map_update)
  also have "\<dots> = sum_list (map ?g fs) + ?g ?x - map ?g fs ! j"
    using assms by (simp add: sum_list_update_rat)
  also have "\<dots> = sum_list (map ?g fs) + of_int q * price (snd (fs ! j))"
    using assms by (simp add: receive_payment_def)
  finally show ?thesis using True by (simp add: sale_firms_def sum_firm_balances_def)
qed

lemma shopping_loop_Cons:
  assumes "fs \<noteq> []"
    "place_order_and_pay hh (price (snd (fs ! (rnd k mod length fs)))) = Inr (hh', q)"
  shows "shopping_loop rnd k ((key, hh) # rest) fs ts =
     (case shopping_loop rnd (Suc k) rest (sale_firms fs (rnd k mod length fs) q)
             (ts @ sale_record fs (rnd k mod length fs) hh' q) of
        Inl e \<Rightarrow> Inl e
      | Inr (hs, fs'', ts'') \<Rightarrow> Inr ((key, hh') # hs, fs'', ts''))"
  using assms by (simp add: choice_index_def Let_def sale_firms_def sale_record_def)

lemma shopping_loop_total:
  "firms_ok fs \<Longrightarrow> fs \<noteq> [] \<Longrightarrow> \<exists>r. shopping_loop rnd k hs fs ts = Inr r"
proof (induction hs arbitrary: k fs ts)
  case Nil
  then show ?case by simp
next
  case (Cons a hs)
  obtain key hh where a: "a = (key, hh)" by (cases a)
  let ?j = "rnd k mod length fs"
  have j: "?j < length fs" using Cons.prems(2) by simp
  have "price (snd (fs ! ?j)) \<noteq> 0" using firms_ok_price [OF Cons.prems(1) j] by simp
  from place_order_and_pay_total [OF this] obtain hh' q where
    p: "place_order_and_pay hh (price (snd (fs ! ?j))) = Inr (hh', q)"
    by fastforce
  have "sale_firms fs ?j q \<noteq> []"
    using Cons.prems(2) length_sale_firms [of fs ?j q] by (metis length_0_conv)
  from Cons.IH [OF sale_firms_ok [OF Cons.prems(1) j] this] obtain r where
    "shopping_loop rnd (Suc k) hs (sale_firms fs ?j q) (ts @ sale_record fs ?j hh' q) = Inr r"
    by blast
  then show ?case
    unfolding a
      shopping_loop_Cons [of fs hh rnd k hh' q key hs ts, OF Cons.prems(2) p]
    by (cases r) simp
qed

lemma shopping_loop_sum:
  "shopping_loop rnd k hs fs ts = Inr (hs', fs', ts') \<Longrightarrow> firms_ok fs \<Longrightarrow> hh_ok hs \<Longrightarrow>
   sum_household_balances hs' + sum_firm_balances fs' =
   sum_household_balances hs + sum_firm_balances fs"
proof (induction hs arbitrary: k fs ts hs')
  case Nil
  then show ?case by simp
next
  case (Cons a hs)
  obtain key hh where a: "a = (key, hh)" by (cases a)
  let ?j = "rnd k mod length fs"
  from Cons.prems(1) [unfolded a] obtain hh' q hs'' where
    ne: "fs \<noteq> []" and
    p: "place_order_and_pay hh (price (snd (fs ! ?j))) = Inr (hh', q)" and
    r: "shopping_loop rnd (Suc k) hs (sale_firms fs ?j q)
       (ts @ sale_record fs ?j hh' q) = Inr (hs'', fs', ts')" and
    h: "hs' = (key, hh') # hs''"
    by (rule shopping_loop_ConsE)
  have j: "?j < length fs" using ne by simp
  have pr: "0 < price (snd (fs ! ?j))" using Cons.prems(2) j by (rule firms_ok_price)
  from Cons.prems(3) have hh: "0 \<le> hh_balance hh" "0 \<le> hh_size hh" and rest: "hh_ok hs"
    by (simp_all add: a hh_ok_def)
  have q: "0 \<le> q" using p hh pr by (rule place_order_and_pay_quantity)
  have debit: "hh_balance hh' = hh_balance hh - of_int q * price (snd (fs ! ?j))"
    using p by (rule place_order_and_pay_debit)
  have paid: "(if 0 < q then of_int q * price (snd (fs ! ?j)) else 0) =
      of_int q * price (snd (fs ! ?j))"
    using q by auto
  have "sum_household_balances hs'' + sum_firm_balances fs' =
      sum_household_balances hs + sum_firm_balances (sale_firms fs ?j q)"
    using r sale_firms_ok [OF Cons.prems(2) j] rest by (rule Cons.IH)
  also have "sum_firm_balances (sale_firms fs ?j q) =
      sum_firm_balances fs + of_int q * price (snd (fs ! ?j))"
    unfolding sum_firm_sale [OF j] paid by simp
  finally show ?case
    by (simp add: a h debit sum_household_balances_def)
qed

lemma run_one_tick_ok:
  assumes "run_one_tick rnd s = Inr (s', ts)" "firms_ok (firms s)"
  shows "firms_ok (firms s') \<and>
         (hh_nonneg (households s) \<longrightarrow> hh_nonneg (households s')) \<and>
         (hh_ok (households s) \<longrightarrow> hh_ok (households s'))"
proof -
  from assms(1) obtain hhs1 fs1 where
    sh: "shopping_loop rnd 0 (households s) (firms s) [] = Inr (hhs1, fs1, ts)" and
    pd: "payday_loop fs1 hhs1 = Inr (firms s', households s')"
    by (rule run_one_tick_phases)
  from shopping_loop_ok [OF sh assms(2)] have
    a: "firms_ok fs1" "hh_nonneg (households s) \<longrightarrow> hh_nonneg hhs1"
      "hh_ok (households s) \<longrightarrow> hh_ok hhs1"
    by simp_all
  from payday_loop_firms_ok [OF pd a(1)] payday_loop_hh [OF pd a(1)] a(2,3) show ?thesis
    by blast
qed

lemma run_one_tick_rosters:
  assumes "run_one_tick rnd s = Inr (s', ts)" "firms_ok (firms s)"
    "rosters_ok (firms s) (households s)"
  shows "rosters_ok (firms s') (households s') \<and> length (firms s') = length (firms s)"
proof -
  from assms(1) obtain hhs1 fs1 where
    sh: "shopping_loop rnd 0 (households s) (firms s) [] = Inr (hhs1, fs1, ts)" and
    pd: "payday_loop fs1 hhs1 = Inr (firms s', households s')"
    by (rule run_one_tick_phases)
  have st: "firm_static fs1 = firm_static (firms s)" using sh by (rule shopping_loop_static)
  have keys: "map fst hhs1 = map fst (households s)"
    using shopping_loop_ok [OF sh assms(2)] by simp
  have "rosters_ok fs1 hhs1"
    using assms(3) by (simp add: rosters_ok_static [OF st] rosters_ok_keys [OF keys])
  from payday_loop_rosters [OF pd this] firm_static_length [OF st] show ?thesis by simp
qed

lemma run_one_tick_total:
  assumes "firms_ok (firms s)" "firms s \<noteq> []" "rosters_ok (firms s) (households s)"
  shows "\<exists>s' ts. run_one_tick rnd s = Inr (s', ts)"
proof -
  from shopping_loop_total [OF assms(1,2)] obtain hhs1 fs1 ts where
    sh: "shopping_loop rnd 0 (households s) (firms s) [] = Inr (hhs1, fs1, ts)"
    by (metis prod_cases3)
  have st: "firm_static fs1 = firm_static (firms s)" using sh by (rule shopping_loop_static)
  have keys: "map fst hhs1 = map fst (households s)"
    using shopping_loop_ok [OF sh assms(1)] by simp
  have "rosters_ok fs1 hhs1"
    using assms(3) by (simp add: rosters_ok_static [OF st] rosters_ok_keys [OF keys])
  from payday_loop_total [OF this] obtain fs2 hhs2 where
    "payday_loop fs1 hhs1 = Inr (fs2, hhs2)"
    by fastforce
  with sh show ?thesis by (simp add: run_one_tick_def)
qed

lemma run_one_tick_sum:
  assumes "run_one_tick rnd s = Inr (s', ts)" "firms_ok (firms s)" "hh_ok (households s)"
  shows "total_money s' = total_money s"
proof -
  from assms(1) obtain hhs1 fs1 where
    sh: "shopping_loop rnd 0 (households s) (firms s) [] = Inr (hhs1, fs1, ts)" and
    pd: "payday_loop fs1 hhs1 = Inr (firms s', households s')"
    by (rule run_one_tick_phases)
  from shopping_loop_sum [OF sh assms(2,3)] payday_loop_sum [OF pd] show ?thesis
    by (simp add: total_money_def)
qed

lemma setup_world_firms_ok:
  assumes "setup_world rnd cfg = Inr s"
    "0 < cfg_p cfg" "0 \<le> cfg_wage_rate cfg" "cfg_wage_rate cfg \<le> 1"
  shows "firms_ok (firms s)"
proof -
  let ?ib = "cfg_M0 cfg / of_int (cfg_N_H cfg)"
  from setup_world_inv [OF assms(1)] have inv: "setup_inv cfg ?ib (households s) (firms s)"
    by simp
  have df: "distinct (map fst (firms s))"
    using setup_invD_keys [OF inv] by (simp add: distinct_range_py)
  have "0 < price (snd kf) \<and> 0 \<le> wage_rate (snd kf) \<and> wage_rate (snd kf) \<le> 1 \<and>
        0 \<le> f_balance (snd kf) \<and> 0 \<le> revenue_this_tick (snd kf)"
    if "kf \<in> set (firms s)" for kf
  proof -
    from that have "(fst kf, snd kf) \<in> set (firms s)" by simp
    from setup_invD_firm [OF inv map_of_is_SomeI [OF df this]] assms(2-4) show ?thesis
      by simp
  qed
  then show ?thesis by (simp add: firms_ok_def)
qed

lemma setup_world_households:
  assumes "setup_world rnd cfg = Inr s" "kh \<in> set (households s)"
  shows "0 < cfg_N_H cfg \<and> hh_balance (snd kh) = cfg_M0 cfg / of_int (cfg_N_H cfg) \<and>
         hh_size (snd kh) = cfg_household_size cfg"
proof -
  let ?ib = "cfg_M0 cfg / of_int (cfg_N_H cfg)"
  from setup_world_inv [OF assms(1)] have
    inv: "setup_inv cfg ?ib (households s) (firms s)" and
    hk: "map fst (households s) = range_py (cfg_N_H cfg)"
    by simp_all
  have "range_py (cfg_N_H cfg) \<noteq> []" using assms(2) hk by auto
  then have n: "0 < cfg_N_H cfg" by (simp add: range_py_def)
  have dh: "distinct (map fst (households s))" using setup_invD_keys [OF inv] by simp
  from assms(2) have "(fst kh, snd kh) \<in> set (households s)" by simp
  from setup_invD_hh [OF inv map_of_is_SomeI [OF dh this]] n show ?thesis by simp
qed

lemma setup_world_rosters:
  assumes "setup_world rnd cfg = Inr s"
  shows "rosters_ok (firms s) (households s)"
proof -
  let ?ib = "cfg_M0 cfg / of_int (cfg_N_H cfg)"
  from setup_world_inv [OF assms(1)] have inv: "setup_inv cfg ?ib (households s) (firms s)"
    by simp
  have df: "distinct (map fst (firms s))"
    using setup_invD_keys [OF inv] by (simp add: distinct_range_py)
  have "i \<in> fst ` set (households s)"
    if kf: "kf \<in> set (firms s)" and i: "i \<in> set (worker_ids (snd kf))" for kf i
  proof -
    from kf have "(fst kf, snd kf) \<in> set (firms s)" by simp
    from setup_invD_firm [OF inv map_of_is_SomeI [OF df this]] i obtain h where
      "map_of (households s) i = Some h"
      by blast
    then show ?thesis by (metis map_of_eq_None_iff option.distinct(1))
  qed
  then show ?thesis unfolding rosters_ok_def by blast
qed

lemma setup_world_firms_nonempty:
  assumes "setup_world rnd cfg = Inr s" "0 < cfg_N_F cfg"
  shows "firms s \<noteq> []"
proof -
  let ?ib = "cfg_M0 cfg / of_int (cfg_N_H cfg)"
  from setup_world_inv [OF assms(1)] have inv: "setup_inv cfg ?ib (households s) (firms s)"
    by simp
  have "range_py (cfg_N_F cfg) \<noteq> []" using assms(2) by (simp add: range_py_def)
  with setup_invD_keys [OF inv] show ?thesis by auto
qed

lemma reachable_firms_ok:
  assumes "0 < cfg_p cfg" "0 \<le> cfg_wage_rate cfg" "cfg_wage_rate cfg \<le> 1"
  shows "reachable cfg s \<Longrightarrow> firms_ok (firms s)"
proof (induction rule: reachable.induct)
  case (init rnd s)
  then show ?case using assms by (rule setup_world_firms_ok)
next
  case (tick s rnd s' ts)
  from run_one_tick_ok [OF tick.hyps(2) tick.IH] show ?case by simp
qed


lemma reachable_hh_ok:
  assumes "0 < cfg_p cfg" "0 \<le> cfg_wage_rate cfg" "cfg_wage_rate cfg \<le> 1" "0 \<le> cfg_M0 cfg"
    "0 \<le> cfg_household_size cfg"
  shows "reachable cfg s \<Longrightarrow> hh_ok (households s)"
proof (induction rule: reachable.induct)
  case (init rnd s)
  have "0 \<le> hh_balance (snd kh) \<and> 0 \<le> hh_size (snd kh)" if "kh \<in> set (households s)" for kh
    using setup_world_households [OF init that] assms(4,5) by simp
  then show ?case by (simp add: hh_ok_def)
next
  case (tick s rnd s' ts)
  from run_one_tick_ok [OF tick.hyps(2) reachable_firms_ok [OF assms(1-3) tick.hyps(1)]] tick.IH
  show ?case by simp
qed

lemma reachable_rosters:
  assumes "0 < cfg_p cfg" "0 \<le> cfg_wage_rate cfg" "cfg_wage_rate cfg \<le> 1" "0 < cfg_N_F cfg"
  shows "reachable cfg s \<Longrightarrow> rosters_ok (firms s) (households s) \<and> firms s \<noteq> []"
proof (induction rule: reachable.induct)
  case (init rnd s)
  from setup_world_rosters [OF init] setup_world_firms_nonempty [OF init assms(4)]
  show ?case by simp
next
  case (tick s rnd s' ts)
  from run_one_tick_rosters [OF tick.hyps(2) reachable_firms_ok [OF assms(1-3) tick.hyps(1)]]
    tick.IH
  show ?case by auto
qed

lemma reachable_A: "reachable cfg_A sim_A" "reachable cfg_A sim_A1"
proof -
  show a: "reachable cfg_A sim_A" using setup_A by (rule reachable.init)
  show "reachable cfg_A sim_A1" using a tick_A by (rule reachable.tick)
qed


text \<open>
  Claim C1, as stated, fails: its four conditions on the configuration (\<open>N_F > 0\<close>,
  \<open>N_H > 0\<close>, \<open>p > 0\<close>, wage rate in \<open>[0, 1]\<close>) leave the household size and the money
  supply free. With household size \<open>-1\<close> the state after setup holds 100 and the state
  after one tick 110 (the household is "charged" \<open>-10\<close> and, the quantity not being
  positive, no firm is paid). With money supply \<open>-25\<close> the balance \<open>-25\<close> becomes \<open>-5\<close>
  (\<open>int(-2.5) = -2\<close> units at price 10), again with no payment to a firm.
\<close>

theorem money_not_conserved_counterexample:
  "setup_world (\<lambda>k. 0) cfg_B = Inr (sim_B 100) \<and>
   run_one_tick (\<lambda>k. 0) (sim_B 100) = Inr (sim_B 110, []) \<and>
   total_money (sim_B 100) = 100 \<and> total_money (sim_B 110) = 110 \<and>
   0 < cfg_N_F cfg_B \<and> 0 < cfg_N_H cfg_B \<and> 0 < cfg_p cfg_B \<and>
   0 \<le> cfg_wage_rate cfg_B \<and> cfg_wage_rate cfg_B \<le> 1 \<and>
   setup_world (\<lambda>k. 0) cfg_C = Inr (sim_C (- 25)) \<and>
   run_one_tick (\<lambda>k. 0) (sim_C (- 25)) = Inr (sim_C (- 5), []) \<and>
   total_money (sim_C (- 25)) = - 25 \<and> total_money (sim_C (- 5)) = - 5 \<and>
   0 < cfg_N_F cfg_C \<and> 0 < cfg_N_H cfg_C \<and> 0 < cfg_p cfg_C \<and>
   0 \<le> cfg_wage_rate cfg_C \<and> cfg_wage_rate cfg_C \<le> 1"
proof -
  have b1: "setup_world (\<lambda>k. 0) cfg_B = Inr (sim_B 100)"
    by (simp add: setup_world_def cfg_B_def sim_B_def create_firms_def range_py_def
        choice_index_def Firm_init_def Household_init_def add_worker_def)
  have b2: "run_one_tick (\<lambda>k. 0) (sim_B 100) = Inr (sim_B 110, [])"
    by (simp add: run_one_tick_def sim_B_def choice_index_def place_order_and_pay_def
        determine_food_demand_def pay_workers_def Let_def)
  have c1: "setup_world (\<lambda>k. 0) cfg_C = Inr (sim_C (- 25))"
    by (simp add: setup_world_def cfg_C_def sim_C_def create_firms_def range_py_def
        choice_index_def Firm_init_def Household_init_def add_worker_def)
  have fl: "py_int (- (5 / 2)) = - 2" by (simp add: py_int_def ceiling_eq_iff)
  have c2: "run_one_tick (\<lambda>k. 0) (sim_C (- 25)) = Inr (sim_C (- 5), [])"
    by (simp add: run_one_tick_def sim_C_def choice_index_def place_order_and_pay_def
        determine_food_demand_def pay_workers_def Let_def fl)
  have t: "total_money (sim_B b) = b" "total_money (sim_C b) = b" for b
    by (simp_all add: total_money_def sim_B_def sim_C_def sum_household_balances_def
        sum_firm_balances_def)
  show ?thesis
    by (simp add: b1 b2 c1 c2 t) (simp add: cfg_B_def cfg_C_def)
qed

text \<open>
  Claim C1, amended. For every configuration with \<open>N_F > 0\<close>, \<open>N_H > 0\<close>, \<open>p > 0\<close>, wage rate
  in \<open>[0, 1]\<close>, \<open>M0 \<ge> 0\<close> and household size \<open>\<ge> 0\<close>, and every reachable state, a call of
  \<open>run_one_tick\<close> returns normally, whatever the random draws, and leaves the sum of all
  household balances plus all firm balances and revenue accumulators unchanged, in
  exact rational arithmetic.
\<close>

theorem money_conserved:
  assumes "0 < cfg_N_F cfg" "0 < cfg_N_H cfg" "0 < cfg_p cfg"
    "0 \<le> cfg_wage_rate cfg" "cfg_wage_rate cfg \<le> 1"
    "0 \<le> cfg_M0 cfg" "0 \<le> cfg_household_size cfg"
    "reachable cfg s"
  shows "\<exists>s' ts. run_one_tick rnd s = Inr (s', ts) \<and> total_money s' = total_money s"
proof -
  have f: "firms_ok (firms s)" using assms(3-5,8) by (rule reachable_firms_ok)
  have h: "hh_ok (households s)" using assms(3-7,8) by (rule reachable_hh_ok)
  from reachable_rosters [OF assms(3-5,1,8)] have
    r: "rosters_ok (firms s) (households s)" and ne: "firms s \<noteq> []"
    by simp_all
  from run_one_tick_total [OF f ne r] obtain s' ts where
    t: "run_one_tick rnd s = Inr (s', ts)"
    by blast
  from run_one_tick_sum [OF t f h] t show ?thesis by blast
qed

theorem money_conserved_witness:
  "\<exists>s' ts. run_one_tick (\<lambda>k. 0) sim_A = Inr (s', ts) \<and> total_money s' = 100"
proof -
  have "total_money sim_A = 100"
    by (simp add: total_money_def sim_A_def sum_household_balances_def sum_firm_balances_def)
  with money_conserved [OF _ _ _ _ _ _ _ reachable_A(1), of "\<lambda>k. 0"] show ?thesis
    by (simp add: cfg_A_def)
qed






text \<open>
  Claim C10. For a configuration with \<open>p > 0\<close> and a wage rate in \<open>[0, 1]\<close>, every firm's
  balance is non-negative in every reachable state; and in the state between the
  shopping and the payday phase of a tick from a reachable state, every firm's balance
  and revenue accumulator are non-negative.
\<close>

theorem firm_balances_nonneg:
  assumes "0 < cfg_p cfg" "0 \<le> cfg_wage_rate cfg" "cfg_wage_rate cfg \<le> 1"
    "reachable cfg s"
  shows "(\<forall>kf \<in> set (firms s). 0 \<le> f_balance (snd kf)) \<and>
     (\<forall>rnd hhs1 fs1 ts.
        shopping_loop rnd 0 (households s) (firms s) [] = Inr (hhs1, fs1, ts) \<longrightarrow>
        (\<forall>kf \<in> set fs1. 0 \<le> f_balance (snd kf) \<and> 0 \<le> revenue_this_tick (snd kf)))"
proof -
  have f: "firms_ok (firms s)" using assms by (rule reachable_firms_ok)
  have "\<forall>kf \<in> set fs1. 0 \<le> f_balance (snd kf) \<and> 0 \<le> revenue_this_tick (snd kf)"
    if "shopping_loop rnd 0 (households s) (firms s) [] = Inr (hhs1, fs1, ts)"
    for rnd hhs1 fs1 ts
    using shopping_loop_ok [OF that f] by (simp add: firms_ok_def)
  with f show ?thesis by (simp add: firms_ok_def)
qed

theorem firm_balances_nonneg_witness:
  "f_balance (snd (firms sim_A1 ! 0)) = 10 \<and> 0 \<le> f_balance (snd (firms sim_A1 ! 0))"
proof -
  have m: "firms sim_A1 ! 0 \<in> set (firms sim_A1)" by (simp add: sim_A1_def)
  have c: "0 < cfg_p cfg_A" "0 \<le> cfg_wage_rate cfg_A" "cfg_wage_rate cfg_A \<le> 1"
    by (simp_all add: cfg_A_def)
  from firm_balances_nonneg [OF c reachable_A(2)] m
  have "0 \<le> f_balance (snd (firms sim_A1 ! 0))" by blast
  then show ?thesis by (simp add: sim_A1_def)
qed

end
